theory Spec2Isabelle
  imports
    Main
    "HOL-Library.Multiset"
    "HOL-Library.Char_ord"
    "HOL-Library.List_Lexorder"
    "HOL-Library.Product_Lexorder"
begin

section \<open>The attendance tracker: data model\<close>

text \<open>
  The repository holds two entry files with the same handlers (\<^verbatim>\<open>server.js\<close>
  registers them under \<^verbatim>\<open>/api\<close> and stamps every body with the wall clock, the
  second file does neither). Each handler sends SQL text to a PostgreSQL pool. The
  embedding has three layers: the two tables as the schema of
  \<^verbatim>\<open>initializeDatabase_table\<close> declares them, the meaning of the SQL statements the
  handlers send, and the handlers themselves with their \<^verbatim>\<open>try\<close>/\<^verbatim>\<open>catch\<close> control flow.

  A \<^verbatim>\<open>DATE\<close> is a day number and a \<^verbatim>\<open>TIMESTAMP\<close> a count of clock ticks, both
  integers; \<^verbatim>\<open>CURRENT_TIMESTAMP\<close> is an input of every handler. Text columns are
  strings, compared by code point where a statement orders by them.
\<close>

type_synonym date = int
type_synonym timestamp = int

text \<open>\<^verbatim>\<open>CREATE TABLE employees (emp_id TEXT PRIMARY KEY, name TEXT NOT NULL,
  created_at TIMESTAMP DEFAULT CURRENT_TIMESTAMP, updated_at TIMESTAMP DEFAULT CURRENT_TIMESTAMP)\<close>\<close>

record employee =
  emp_id :: string
  name :: string
  created_at :: timestamp
  updated_at :: timestamp

text \<open>\<^verbatim>\<open>CREATE TABLE attendance_records (id SERIAL PRIMARY KEY, emp_id TEXT NOT NULL,
  emp_name TEXT NOT NULL, attendance_type TEXT NOT NULL, date DATE NOT NULL,
  timestamp TIMESTAMP DEFAULT CURRENT_TIMESTAMP,
  FOREIGN KEY (emp_id) REFERENCES employees (emp_id), UNIQUE(emp_id, date))\<close>.
  The columns \<^verbatim>\<open>id\<close> and \<^verbatim>\<open>emp_id\<close> are the fields \<open>rec_id\<close> and \<open>rec_emp_id\<close>.\<close>

record attendance_record =
  rec_id :: int
  rec_emp_id :: string
  emp_name :: string
  attendance_type :: string
  date :: date
  timestamp :: timestamp

text \<open>
  The stored state: the rows of the two tables in heap order, and the last value of
  the sequence behind the \<^verbatim>\<open>SERIAL\<close> column. The sequence is not transactional: a value
  drawn from it stays drawn when the transaction is rolled back.
\<close>

record database =
  employees :: "employee list"
  attendance_records :: "attendance_record list"
  attendance_records_id_seq :: int

text \<open>\<^verbatim>\<open>initializeDatabase_table\<close> on a fresh store: both tables empty, and the first
  value the sequence will give is 1.\<close>

definition empty_database :: database where
  "empty_database = \<lparr>employees = [], attendance_records = [], attendance_records_id_seq = 0\<rparr>"

text \<open>
  The constraints the schema declares: the two primary keys, the uniqueness of
  (\<^verbatim>\<open>emp_id\<close>, \<^verbatim>\<open>date\<close>) and the foreign key. The last conjunct says that every
  stored \<^verbatim>\<open>id\<close> was drawn from the sequence.
\<close>

definition primary_key_employees :: "database \<Rightarrow> bool" where
  "primary_key_employees s = distinct (map emp_id (employees s))"

definition primary_key_attendance :: "database \<Rightarrow> bool" where
  "primary_key_attendance s = distinct (map rec_id (attendance_records s))"

definition unique_emp_date :: "database \<Rightarrow> bool" where
  "unique_emp_date s = distinct (map (\<lambda>r. (rec_emp_id r, date r)) (attendance_records s))"

definition foreign_key :: "database \<Rightarrow> bool" where
  "foreign_key s = (\<forall>r \<in> set (attendance_records s). rec_emp_id r \<in> emp_id ` set (employees s))"

definition ids_from_sequence :: "database \<Rightarrow> bool" where
  "ids_from_sequence s = (\<forall>r \<in> set (attendance_records s). rec_id r \<le> attendance_records_id_seq s)"

definition constraints :: "database \<Rightarrow> bool" where
  "constraints s \<longleftrightarrow>
     primary_key_employees s \<and> primary_key_attendance s \<and> unique_emp_date s \<and>
     foreign_key s \<and> ids_from_sequence s"

section \<open>The engine: what the statements of the handlers mean\<close>

text \<open>
  Every \<^verbatim>\<open>pool.query\<close>, \<^verbatim>\<open>client.query\<close> and \<^verbatim>\<open>pool.connect\<close> is an awaited call
  that either resolves or rejects with an error. The rejections that do not follow from
  the stored rows (the connection is lost, the server is down, a parameter text is not
  of the column's type) are an input of the model: an \<open>engine\<close> tells for each call
  site whether the call is rejected, and with which message.
\<close>

datatype call_site =
    CONNECT | BEGIN | UPSERT_EMPLOYEE | UPSERT_ATTENDANCE | COMMIT | ROLLBACK
  | SELECT_FILTERED | SELECT_RANGE | DELETE_BY_ID
  | COUNT_EMPLOYEES | COUNT_RECORDS | COUNT_WFO | COUNT_WFH | GROUP_BY_TYPE

type_synonym engine = "call_site \<Rightarrow> string option"

definition healthy :: engine where
  "healthy = (\<lambda>_. None)"

subsection \<open>The employee upsert\<close>

text \<open>\<^verbatim>\<open>INSERT INTO employees (emp_id, name, updated_at) VALUES ($1, $2, CURRENT_TIMESTAMP)
  ON CONFLICT (emp_id) DO UPDATE SET name = $2, updated_at = CURRENT_TIMESTAMP\<close>:
  a row with the key is updated in place, otherwise a row is added, its
  \<^verbatim>\<open>created_at\<close> taking the column default.\<close>

definition insert_employee_on_conflict ::
    "timestamp \<Rightarrow> string \<Rightarrow> string \<Rightarrow> employee list \<Rightarrow> employee list" where
  "insert_employee_on_conflict now p1 p2 rows =
     (if \<exists>e \<in> set rows. emp_id e = p1
      then map (\<lambda>e. if emp_id e = p1 then e\<lparr>name := p2, updated_at := now\<rparr> else e) rows
      else rows @ [\<lparr>emp_id = p1, name = p2, created_at = now, updated_at = now\<rparr>])"

subsection \<open>The attendance upsert\<close>

text \<open>\<^verbatim>\<open>INSERT INTO attendance_records (emp_id, emp_name, attendance_type, date)
  VALUES ($1, $2, $3, $4) ON CONFLICT (emp_id, date) DO UPDATE SET emp_name = $2,
  attendance_type = $3, timestamp = CURRENT_TIMESTAMP RETURNING id\<close>.
  The default of \<^verbatim>\<open>id\<close> draws the next sequence value before the conflict is looked
  for, so the sequence advances on the update path too. Without a conflict the new
  row must pass the primary key and the foreign key. The result is the list of the
  returned \<^verbatim>\<open>id\<close>s, or the engine's error.\<close>

definition insert_attendance_on_conflict ::
    "timestamp \<Rightarrow> string \<Rightarrow> string \<Rightarrow> string \<Rightarrow> date \<Rightarrow> database
      \<Rightarrow> (string + int list) \<times> database" where
  "insert_attendance_on_conflict now p1 p2 p3 p4 s =
     (let nextval = attendance_records_id_seq s + 1;
          s' = s\<lparr>attendance_records_id_seq := nextval\<rparr>;
          rows = attendance_records s;
          conflict = (\<lambda>r. rec_emp_id r = p1 \<and> date r = p4)
      in if \<exists>r \<in> set rows. conflict r
         then (Inr (map rec_id (filter conflict rows)),
               s'\<lparr>attendance_records :=
                    map (\<lambda>r. if conflict r
                              then r\<lparr>emp_name := p2, attendance_type := p3, timestamp := now\<rparr>
                              else r) rows\<rparr>)
         else if nextval \<in> rec_id ` set rows
         then (Inl ''duplicate key value violates unique constraint attendance_records_pkey'', s')
         else if p1 \<notin> emp_id ` set (employees s)
         then (Inl ''insert on table attendance_records violates foreign key constraint'', s')
         else (Inr [nextval],
               s'\<lparr>attendance_records :=
                    rows @ [\<lparr>rec_id = nextval, rec_emp_id = p1, emp_name = p2,
                             attendance_type = p3, date = p4, timestamp = now\<rparr>]\<rparr>))"

section \<open>The handlers\<close>

text \<open>
  A field of a JSON body or of a query string is present or not; the handlers test it
  with \<^verbatim>\<open>!field\<close>, which holds for a missing field and for the empty string. A date
  field is carried as the date it denotes, so \<open>None\<close> stands for a missing or an
  empty one.
\<close>

definition falsy :: "string option \<Rightarrow> bool" where
  "falsy v = (case v of None \<Rightarrow> True | Some t \<Rightarrow> t = [])"

text \<open>The text a field is bound to as a statement parameter; a handler reaches this
  for fields that passed the presence check only.\<close>

definition param_text :: "string option \<Rightarrow> string" where
  "param_text v = (case v of None \<Rightarrow> [] | Some t \<Rightarrow> t)"

text \<open>What a handler leaves behind: a response with its status and body, or a rejected
  promise, when an awaited call threw outside every \<^verbatim>\<open>try\<close> and no response was
  written by the handler.\<close>

record stats =
  totalEmployees :: nat
  totalRecords :: nat
  wfoRecords :: nat
  wfhRecords :: nat
  attendanceByType :: "(string \<times> nat) list"

datatype body =
    Error string
  | Employee_saved string string
  | Attendance_saved string int
  | Message string
  | Records "attendance_record list"
  | Statistics stats

datatype outcome = Responded nat body | Rejected string

subsection \<open>POST /employees\<close>

definition post_employees ::
    "engine \<Rightarrow> timestamp \<Rightarrow> string option \<Rightarrow> string option \<Rightarrow> database
      \<Rightarrow> outcome \<times> database" where
  "post_employees eng now emp_id_field name_field s =
     (if falsy emp_id_field \<or> falsy name_field
      then (Responded 400 (Error ''Employee ID and name are required''), s)
      else
        (case eng UPSERT_EMPLOYEE of
           Some msg \<Rightarrow> (Responded 500 (Error msg), s)
         | None \<Rightarrow>
             (Responded 200 (Employee_saved ''Employee saved successfully'' (param_text emp_id_field)),
              s\<lparr>employees :=
                  insert_employee_on_conflict now (param_text emp_id_field) (param_text name_field)
                    (employees s)\<rparr>)))"

subsection \<open>POST /attendance\<close>

text \<open>
  The \<^verbatim>\<open>try\<close> block: \<^verbatim>\<open>BEGIN\<close>, the two upserts, \<^verbatim>\<open>COMMIT\<close>, then the read of
  \<^verbatim>\<open>result.rows[0].id\<close> for the response. The transaction works on its own copy of
  the tables; the stored state changes at \<^verbatim>\<open>COMMIT\<close> only, the sequence apart.
  \<open>Inl\<close> is a throw: the message, and the stored state at that moment.
  Reading \<^verbatim>\<open>rows[0].id\<close> of an empty result throws a \<^verbatim>\<open>TypeError\<close>, after the commit.
\<close>

definition attendance_transaction ::
    "engine \<Rightarrow> timestamp \<Rightarrow> string \<Rightarrow> string \<Rightarrow> string \<Rightarrow> date \<Rightarrow> database
      \<Rightarrow> (string \<times> database) + (int \<times> database)" where
  "attendance_transaction eng now p1 p2 p3 p4 s =
     (case eng BEGIN of
        Some msg \<Rightarrow> Inl (msg, s)
      | None \<Rightarrow>
     (case eng UPSERT_EMPLOYEE of
        Some msg \<Rightarrow> Inl (msg, s)
      | None \<Rightarrow>
     (let w = s\<lparr>employees := insert_employee_on_conflict now p1 p2 (employees s)\<rparr> in
      case eng UPSERT_ATTENDANCE of
        Some msg \<Rightarrow> Inl (msg, s)
      | None \<Rightarrow>
     (case insert_attendance_on_conflict now p1 p2 p3 p4 w of
        (Inl msg, w') \<Rightarrow>
          Inl (msg, s\<lparr>attendance_records_id_seq := attendance_records_id_seq w'\<rparr>)
      | (Inr result_rows, w') \<Rightarrow>
     (case eng COMMIT of
        Some msg \<Rightarrow> Inl (msg, s\<lparr>attendance_records_id_seq := attendance_records_id_seq w'\<rparr>)
      | None \<Rightarrow>
     (case result_rows of
        [] \<Rightarrow> Inl (''Cannot read properties of undefined (reading id)'', w')
      | i # _ \<Rightarrow> Inr (i, w')))))))"

text \<open>
  The handler: the presence check, \<^verbatim>\<open>pool.connect\<close> before the \<^verbatim>\<open>try\<close>, the
  \<^verbatim>\<open>try\<close> block, and the \<^verbatim>\<open>catch\<close>, which awaits \<^verbatim>\<open>ROLLBACK\<close> before it writes
  the 500. A rejected \<^verbatim>\<open>ROLLBACK\<close> leaves the \<^verbatim>\<open>catch\<close> by its own error; the engine
  discards a transaction that was never committed.
\<close>

definition post_attendance ::
    "engine \<Rightarrow> timestamp \<Rightarrow> string option \<Rightarrow> string option \<Rightarrow> string option \<Rightarrow> date option
      \<Rightarrow> database \<Rightarrow> outcome \<times> database" where
  "post_attendance eng now emp_id_field emp_name_field attendance_type_field date_field s =
     (case date_field of
        None \<Rightarrow> (Responded 400 (Error ''All fields are required''), s)
      | Some p4 \<Rightarrow>
     (if falsy emp_id_field \<or> falsy emp_name_field \<or> falsy attendance_type_field
      then (Responded 400 (Error ''All fields are required''), s)
      else
        (case eng CONNECT of
           Some msg \<Rightarrow> (Rejected msg, s)
         | None \<Rightarrow>
        (case attendance_transaction eng now (param_text emp_id_field) (param_text emp_name_field)
                (param_text attendance_type_field) p4 s of
           Inr (i, s') \<Rightarrow>
             (Responded 200 (Attendance_saved ''Attendance record added successfully'' i), s')
         | Inl (msg, s') \<Rightarrow>
        (case eng ROLLBACK of
           Some msg' \<Rightarrow> (Rejected msg', s')
         | None \<Rightarrow> (Responded 500 (Error msg), s'))))))"

section \<open>Reading and deleting\<close>

subsection \<open>Conditions with positional parameters\<close>

text \<open>
  The \<^verbatim>\<open>WHERE\<close> clauses of the handlers are conjunctions of the conditions below;
  a number is a placeholder \<^verbatim>\<open>$n\<close>, bound to the \<open>n\<close>-th element of the parameter
  array the handler passes beside the statement text.

  A date of the path or of the query string reaches the handler as the date it
  denotes (the interface fixes the spelling \<^verbatim>\<open>YYYY-MM-DD\<close>). A text that is no date
  makes the engine reject the statement; that is the rejection of the call site,
  answered 500 by the \<^verbatim>\<open>catch\<close> of the handler.
\<close>

datatype sql_value = Text_value string | Date_value date

datatype condition =
    Always
  | Date_ge nat
  | Date_le nat
  | Type_eq nat
  | Emp_eq nat
  | Date_between nat nat
  | Id_eq nat
  | Type_is string

text \<open>\<^verbatim>\<open>$n\<close> counts from 1; a placeholder beyond the array has no value.\<close>

definition param :: "sql_value list \<Rightarrow> nat \<Rightarrow> sql_value option" where
  "param ps n = (if 1 \<le> n \<and> n \<le> length ps then Some (ps ! (n - 1)) else None)"

text \<open>
  The \<^verbatim>\<open>id\<close> of DELETE /attendance/:id is bound as the text of the path segment, and
  the engine reads it as a value of the 32-bit integer column: blanks around it are
  skipped, a sign may stand before the digits, there is at least one decimal digit, and
  the value lies between \<open>- 2147483648\<close> and \<open>2147483647\<close>. Any other text read here is
  refused (\<^verbatim>\<open>invalid input syntax for type integer\<close>, \<^verbatim>\<open>value is out of range for
  type integer\<close>). PostgreSQL from version 16 on also reads hexadecimal, octal and binary
  spellings and underscores between digits; they are not modelled, and nothing below is
  stated about such texts.
\<close>

definition digit :: "char \<Rightarrow> nat option" where
  "digit c =
     map_of [(CHR ''0'', 0), (CHR ''1'', 1), (CHR ''2'', 2), (CHR ''3'', 3), (CHR ''4'', 4),
             (CHR ''5'', 5), (CHR ''6'', 6), (CHR ''7'', 7), (CHR ''8'', 8), (CHR ''9'', 9)] c"

fun decimal :: "nat \<Rightarrow> string \<Rightarrow> nat option" where
  "decimal acc [] = Some acc"
| "decimal acc (c # cs) =
     (case digit c of None \<Rightarrow> None | Some d \<Rightarrow> decimal (10 * acc + d) cs)"

definition is_space :: "char \<Rightarrow> bool" where
  "is_space c \<longleftrightarrow> c \<in> set [CHR '' '', CHR 0x09, CHR 0x0A, CHR 0x0B, CHR 0x0C, CHR 0x0D]"

definition int4_range :: "int \<Rightarrow> int option" where
  "int4_range v = (if - 2147483648 \<le> v \<and> v \<le> 2147483647 then Some v else None)"

definition int4_in :: "string \<Rightarrow> int option" where
  "int4_in t =
     (case rev (dropWhile is_space (rev (dropWhile is_space t))) of
        [] \<Rightarrow> None
      | c # cs \<Rightarrow>
          if c = CHR ''-''
          then (case cs of
                  [] \<Rightarrow> None
                | _ \<Rightarrow> (case decimal 0 cs of None \<Rightarrow> None | Some v \<Rightarrow> int4_range (- int v)))
          else if c = CHR ''+''
          then (case cs of
                  [] \<Rightarrow> None
                | _ \<Rightarrow> (case decimal 0 cs of None \<Rightarrow> None | Some v \<Rightarrow> int4_range (int v)))
          else (case decimal 0 (c # cs) of None \<Rightarrow> None | Some v \<Rightarrow> int4_range (int v)))"

text \<open>Binding a condition gives the predicate on rows, or nothing when a placeholder
  has no value or a value of the wrong type.\<close>

fun bind_condition :: "sql_value list \<Rightarrow> condition \<Rightarrow> (attendance_record \<Rightarrow> bool) option" where
  "bind_condition ps Always = Some (\<lambda>r. True)"
| "bind_condition ps (Date_ge n) =
     (case param ps n of Some (Date_value d) \<Rightarrow> Some (\<lambda>r. d \<le> date r) | _ \<Rightarrow> None)"
| "bind_condition ps (Date_le n) =
     (case param ps n of Some (Date_value d) \<Rightarrow> Some (\<lambda>r. date r \<le> d) | _ \<Rightarrow> None)"
| "bind_condition ps (Type_eq n) =
     (case param ps n of Some (Text_value t) \<Rightarrow> Some (\<lambda>r. attendance_type r = t) | _ \<Rightarrow> None)"
| "bind_condition ps (Emp_eq n) =
     (case param ps n of Some (Text_value t) \<Rightarrow> Some (\<lambda>r. rec_emp_id r = t) | _ \<Rightarrow> None)"
| "bind_condition ps (Date_between m n) =
     (case (param ps m, param ps n) of
        (Some (Date_value a), Some (Date_value b)) \<Rightarrow> Some (\<lambda>r. a \<le> date r \<and> date r \<le> b)
      | _ \<Rightarrow> None)"
| "bind_condition ps (Id_eq n) =
     (case param ps n of
        Some (Text_value t) \<Rightarrow>
          (case int4_in t of Some i \<Rightarrow> Some (\<lambda>r. rec_id r = i) | None \<Rightarrow> None)
      | _ \<Rightarrow> None)"
| "bind_condition ps (Type_is t) = Some (\<lambda>r. attendance_type r = t)"

text \<open>The highest placeholder of a statement is the number of parameters it takes; the
  engine refuses an array of another length.\<close>

fun placeholders :: "condition \<Rightarrow> nat list" where
  "placeholders (Date_ge n) = [n]"
| "placeholders (Date_le n) = [n]"
| "placeholders (Type_eq n) = [n]"
| "placeholders (Emp_eq n) = [n]"
| "placeholders (Date_between m n) = [m, n]"
| "placeholders (Id_eq n) = [n]"
| "placeholders c = []"

definition parameters_required :: "condition list \<Rightarrow> nat" where
  "parameters_required conds = fold max (concat (map placeholders conds)) 0"

definition where_clause ::
    "condition list \<Rightarrow> sql_value list \<Rightarrow> string + (attendance_record \<Rightarrow> bool)" where
  "where_clause conds ps =
     (if length ps \<noteq> parameters_required conds
      then Inl ''bind message supplies the wrong number of parameters''
      else
        (case those (map (bind_condition ps) conds) of
           None \<Rightarrow> Inl ''invalid input syntax for the type of a parameter''
         | Some preds \<Rightarrow> Inr (\<lambda>r. list_all (\<lambda>p. p r) preds)))"

text \<open>\<^verbatim>\<open>SELECT * FROM attendance_records WHERE ...\<close>, before the ordering.\<close>

definition select_where ::
    "condition list \<Rightarrow> sql_value list \<Rightarrow> attendance_record list
      \<Rightarrow> string + attendance_record list" where
  "select_where conds ps rows =
     (case where_clause conds ps of
        Inl msg \<Rightarrow> Inl msg
      | Inr holds \<Rightarrow> Inr (filter holds rows))"

text \<open>\<^verbatim>\<open>ORDER BY date DESC, emp_id\<close> and \<^verbatim>\<open>ORDER BY date DESC\<close>. SQL leaves the order of
  rows with equal keys open; the model keeps them in heap order.\<close>

definition order_by_date_desc_emp_id :: "attendance_record list \<Rightarrow> attendance_record list" where
  "order_by_date_desc_emp_id = sort_key (\<lambda>r. (- date r, rec_emp_id r))"

definition order_by_date_desc :: "attendance_record list \<Rightarrow> attendance_record list" where
  "order_by_date_desc = sort_key (\<lambda>r. - date r)"

text \<open>\<^verbatim>\<open>DELETE FROM attendance_records WHERE ...\<close>: the row count of the result and the
  rows that stay. No table refers to this one, so every deletion is allowed.\<close>

definition delete_where ::
    "condition list \<Rightarrow> sql_value list \<Rightarrow> attendance_record list
      \<Rightarrow> string + (nat \<times> attendance_record list)" where
  "delete_where conds ps rows =
     (case where_clause conds ps of
        Inl msg \<Rightarrow> Inl msg
      | Inr holds \<Rightarrow> Inr (length (filter holds rows), filter (\<lambda>r. \<not> holds r) rows))"

text \<open>\<^verbatim>\<open>SELECT COUNT(*) as count FROM attendance_records WHERE ...\<close>; the handler
  reads the count with \<^verbatim>\<open>parseInt\<close>.\<close>

definition count_where ::
    "condition list \<Rightarrow> sql_value list \<Rightarrow> attendance_record list \<Rightarrow> string + nat" where
  "count_where conds ps rows =
     (case where_clause conds ps of
        Inl msg \<Rightarrow> Inl msg
      | Inr holds \<Rightarrow> Inr (length (filter holds rows)))"

text \<open>\<^verbatim>\<open>SELECT attendance_type, COUNT(*) as count FROM attendance_records
  GROUP BY attendance_type ORDER BY count DESC\<close>: one group for each value of the
  column, with the number of its rows.\<close>

definition group_by_attendance_type :: "attendance_record list \<Rightarrow> (string \<times> nat) list" where
  "group_by_attendance_type rows =
     sort_key (\<lambda>g. - int (snd g))
       (map (\<lambda>t. (t, length (filter (\<lambda>r. attendance_type r = t) rows)))
          (remdups (map attendance_type rows)))"

subsection \<open>GET /attendance\<close>

text \<open>
  The handler grows the statement text, the parameter array and \<^verbatim>\<open>paramCount\<close>
  together, one \<^verbatim>\<open>if\<close> for each filter of the query string. A builder is the triple
  of the three variables.
\<close>

type_synonym builder = "condition list \<times> sql_value list \<times> nat"

definition add_start_date :: "date option \<Rightarrow> builder \<Rightarrow> builder" where
  "add_start_date start_date b =
     (case (start_date, b) of
        (None, _) \<Rightarrow> b
      | (Some d, (query, params, paramCount)) \<Rightarrow>
          (query @ [Date_ge (paramCount + 1)], params @ [Date_value d], paramCount + 1))"

definition add_end_date :: "date option \<Rightarrow> builder \<Rightarrow> builder" where
  "add_end_date end_date b =
     (case (end_date, b) of
        (None, _) \<Rightarrow> b
      | (Some d, (query, params, paramCount)) \<Rightarrow>
          (query @ [Date_le (paramCount + 1)], params @ [Date_value d], paramCount + 1))"

definition add_attendance_type :: "string option \<Rightarrow> builder \<Rightarrow> builder" where
  "add_attendance_type attendance_type_filter b =
     (case b of (query, params, paramCount) \<Rightarrow>
        if falsy attendance_type_filter then b
        else (query @ [Type_eq (paramCount + 1)],
              params @ [Text_value (param_text attendance_type_filter)], paramCount + 1))"

definition get_attendance ::
    "engine \<Rightarrow> date option \<Rightarrow> date option \<Rightarrow> string option \<Rightarrow> database \<Rightarrow> outcome" where
  "get_attendance eng start_date end_date attendance_type_filter s =
     (case add_attendance_type attendance_type_filter
             (add_end_date end_date (add_start_date start_date ([Always], [], 0))) of
        (query, params, paramCount) \<Rightarrow>
     (case eng SELECT_FILTERED of
        Some msg \<Rightarrow> Responded 500 (Error msg)
      | None \<Rightarrow>
     (case select_where query params (attendance_records s) of
        Inl msg \<Rightarrow> Responded 500 (Error msg)
      | Inr rows \<Rightarrow> Responded 200 (Records (order_by_date_desc_emp_id rows)))))"

subsection \<open>GET /attendance-range/:emp_id/:start_date/:end_date\<close>

definition get_attendance_range ::
    "engine \<Rightarrow> string \<Rightarrow> date \<Rightarrow> date \<Rightarrow> database \<Rightarrow> outcome" where
  "get_attendance_range eng emp_id_param start_date end_date s =
     (case eng SELECT_RANGE of
        Some msg \<Rightarrow> Responded 500 (Error msg)
      | None \<Rightarrow>
     (case select_where [Emp_eq 1, Date_between 2 3]
             [Text_value emp_id_param, Date_value start_date, Date_value end_date]
             (attendance_records s) of
        Inl msg \<Rightarrow> Responded 500 (Error msg)
      | Inr rows \<Rightarrow> Responded 200 (Records (order_by_date_desc rows))))"

subsection \<open>DELETE /attendance/:id\<close>

text \<open>The handler passes \<^verbatim>\<open>req.params.id\<close>, the text of the path segment, as the one
  parameter of the statement.\<close>

definition delete_attendance :: "engine \<Rightarrow> string \<Rightarrow> database \<Rightarrow> outcome \<times> database" where
  "delete_attendance eng id_param s =
     (case eng DELETE_BY_ID of
        Some msg \<Rightarrow> (Responded 500 (Error msg), s)
      | None \<Rightarrow>
     (case delete_where [Id_eq 1] [Text_value id_param] (attendance_records s) of
        Inl msg \<Rightarrow> (Responded 500 (Error msg), s)
      | Inr (rowCount, rows) \<Rightarrow>
          (if rowCount = 0 then Responded 404 (Error ''Record not found'')
           else Responded 200 (Message ''Record deleted successfully''),
           s\<lparr>attendance_records := rows\<rparr>)))"

subsection \<open>GET /stats\<close>

text \<open>Five queries, one after the other, on the stored state; the first one that is
  rejected ends the handler in its \<^verbatim>\<open>catch\<close>.\<close>

definition get_stats :: "engine \<Rightarrow> database \<Rightarrow> outcome" where
  "get_stats eng s =
     (case eng COUNT_EMPLOYEES of Some msg \<Rightarrow> Responded 500 (Error msg) | None \<Rightarrow>
     (case eng COUNT_RECORDS of Some msg \<Rightarrow> Responded 500 (Error msg) | None \<Rightarrow>
     (case count_where [Always] [] (attendance_records s) of
        Inl msg \<Rightarrow> Responded 500 (Error msg) | Inr n_total \<Rightarrow>
     (case eng COUNT_WFO of Some msg \<Rightarrow> Responded 500 (Error msg) | None \<Rightarrow>
     (case count_where [Type_is ''WFO''] [] (attendance_records s) of
        Inl msg \<Rightarrow> Responded 500 (Error msg) | Inr n_wfo \<Rightarrow>
     (case eng COUNT_WFH of Some msg \<Rightarrow> Responded 500 (Error msg) | None \<Rightarrow>
     (case count_where [Type_is ''WFH''] [] (attendance_records s) of
        Inl msg \<Rightarrow> Responded 500 (Error msg) | Inr n_wfh \<Rightarrow>
     (case eng GROUP_BY_TYPE of Some msg \<Rightarrow> Responded 500 (Error msg) | None \<Rightarrow>
        Responded 200
          (Statistics
             \<lparr>totalEmployees = length (employees s), totalRecords = n_total,
              wfoRecords = n_wfo, wfhRecords = n_wfh,
              attendanceByType = group_by_attendance_type (attendance_records s)\<rparr>)))))))))"

section \<open>The API as a transition system\<close>

text \<open>The requests that write. A state is reachable when some sequence of them, each
  with any engine and any clock reading, leads to it from the fresh store.\<close>

datatype request =
    POST_employees "string option" "string option"
  | POST_attendance "string option" "string option" "string option" "date option"
  | DELETE_attendance string

fun handle :: "engine \<Rightarrow> timestamp \<Rightarrow> request \<Rightarrow> database \<Rightarrow> outcome \<times> database" where
  "handle eng now (POST_employees e n) s = post_employees eng now e n s"
| "handle eng now (POST_attendance e n t d) s = post_attendance eng now e n t d s"
| "handle eng now (DELETE_attendance i) s = delete_attendance eng i s"

inductive reachable :: "database \<Rightarrow> bool" where
  fresh: "reachable empty_database"
| served: "reachable s \<Longrightarrow> reachable (snd (handle eng now req s))"

text \<open>Requests served one after the other, each with its clock reading.\<close>

definition serve :: "engine \<Rightarrow> (timestamp \<times> request) list \<Rightarrow> database \<Rightarrow> database" where
  "serve eng reqs s = fold (\<lambda>(now, req) s. snd (handle eng now req s)) reqs s"

text \<open>A small store for the concrete instances below: Alice in the office on day 100,
  Bob at home on day 100, Alice at home on day 101.\<close>

definition example_database :: database where
  "example_database =
     serve healthy
       [(10, POST_attendance (Some ''E1'') (Some ''Alice'') (Some ''WFO'') (Some 100)),
        (11, POST_attendance (Some ''E2'') (Some ''Bob'') (Some ''WFH'') (Some 100)),
        (12, POST_attendance (Some ''E1'') (Some ''Alice'') (Some ''WFH'') (Some 101))]
       empty_database"

text \<open>Two attendance writes on that store for one employee and one day: Carol, who is
  not yet known, in the office on day 101, then the same day again at home under a
  changed name.\<close>

definition first_write :: "outcome \<times> database" where
  "first_write =
     post_attendance healthy 13 (Some ''E3'') (Some ''Carol'') (Some ''WFO'') (Some 101)
       example_database"

definition second_write :: "outcome \<times> database" where
  "second_write =
     post_attendance healthy 14 (Some ''E3'') (Some ''Carol D'') (Some ''WFH'') (Some 101)
       (snd first_write)"

section \<open>The listings as the specification words them\<close>

text \<open>The specification's reading of the filtered listing: a record is listed when it
  satisfies every filter that is provided, and a filter that is absent (or empty)
  constrains nothing.\<close>

definition satisfies_filters ::
    "date option \<Rightarrow> date option \<Rightarrow> string option \<Rightarrow> attendance_record \<Rightarrow> bool" where
  "satisfies_filters start_date end_date attendance_type_filter r \<longleftrightarrow>
     (case start_date of None \<Rightarrow> True | Some d \<Rightarrow> d \<le> date r) \<and>
     (case end_date of None \<Rightarrow> True | Some d \<Rightarrow> date r \<le> d) \<and>
     (case attendance_type_filter of
        None \<Rightarrow> True
      | Some t \<Rightarrow> if t = [] then True else attendance_type r = t)"

text \<open>The orders the listings promise: later dates first, and among equal dates the
  smaller employee id first.\<close>

definition date_desc_then_emp_id :: "attendance_record \<Rightarrow> attendance_record \<Rightarrow> bool" where
  "date_desc_then_emp_id x y \<longleftrightarrow>
     date y < date x \<or> (date x = date y \<and> rec_emp_id x \<le> rec_emp_id y)"

definition date_desc :: "attendance_record \<Rightarrow> attendance_record \<Rightarrow> bool" where
  "date_desc x y \<longleftrightarrow> date y \<le> date x"

section \<open>Facts about the statements\<close>

subsection \<open>Lists\<close>

lemma filter_map_untouched:
  "(\<And>x. x \<in> set xs \<Longrightarrow> P (f x) = P x) \<Longrightarrow> (\<And>x. x \<in> set xs \<Longrightarrow> P x \<Longrightarrow> f x = x)
    \<Longrightarrow> filter P (map f xs) = filter P xs"
  by (induction xs) auto

lemma filter_map_touched:
  "(\<And>x. x \<in> set xs \<Longrightarrow> P (f x) = P x)
    \<Longrightarrow> filter P (map f xs) = map f (filter P xs)"
  by (induction xs) auto

lemma filter_none: "(\<And>x. x \<in> set xs \<Longrightarrow> \<not> P x) \<Longrightarrow> filter P xs = []"
  by (induction xs) auto

lemma distinct_filter_key_length:
  "distinct (map f xs) \<Longrightarrow> k \<in> f ` set xs \<Longrightarrow> length (filter (\<lambda>x. f x = k) xs) = 1"
proof (induction xs)
  case Nil
  then show ?case by simp
next
  case (Cons a xs)
  show ?case
  proof (cases "f a = k")
    case True
    from Cons.prems(1) have "f a \<notin> f ` set xs" by simp
    with True have "\<And>x. x \<in> set xs \<Longrightarrow> f x \<noteq> k" by blast
    then have "filter (\<lambda>x. f x = k) xs = []" by (simp add: filter_none)
    with True show ?thesis by simp
  next
    case False
    with Cons show ?thesis by auto
  qed
qed

subsection \<open>The employee upsert\<close>

lemma emp_ids_insert_employee:
  "map emp_id (insert_employee_on_conflict now p1 p2 rows) =
     (if p1 \<in> emp_id ` set rows then map emp_id rows else map emp_id rows @ [p1])"
  by (auto simp: insert_employee_on_conflict_def)

lemma set_emp_ids_insert_employee:
  "emp_id ` set (insert_employee_on_conflict now p1 p2 rows) = insert p1 (emp_id ` set rows)"
proof -
  have "set (map emp_id (insert_employee_on_conflict now p1 p2 rows)) = insert p1 (emp_id ` set rows)"
    unfolding emp_ids_insert_employee by auto
  then show ?thesis by simp
qed

lemma distinct_insert_employee:
  "distinct (map emp_id rows) \<Longrightarrow> distinct (map emp_id (insert_employee_on_conflict now p1 p2 rows))"
  unfolding emp_ids_insert_employee by auto

lemma insert_employee_frame:
  "filter (\<lambda>e. emp_id e \<noteq> p1) (insert_employee_on_conflict now p1 p2 rows) =
   filter (\<lambda>e. emp_id e \<noteq> p1) rows"
  unfolding insert_employee_on_conflict_def
  by (simp add: filter_map_untouched)

lemma insert_employee_key_rows:
  "filter (\<lambda>e. emp_id e = p1) (insert_employee_on_conflict now p1 p2 rows) =
     (if p1 \<in> emp_id ` set rows
      then map (\<lambda>e. e\<lparr>name := p2, updated_at := now\<rparr>) (filter (\<lambda>e. emp_id e = p1) rows)
      else [\<lparr>emp_id = p1, name = p2, created_at = now, updated_at = now\<rparr>])"
proof (cases "p1 \<in> emp_id ` set rows")
  case True
  then have ex: "\<exists>e \<in> set rows. emp_id e = p1" by auto
  have "filter (\<lambda>e. emp_id e = p1)
          (map (\<lambda>e. if emp_id e = p1 then e\<lparr>name := p2, updated_at := now\<rparr> else e) rows) =
        map (\<lambda>e. if emp_id e = p1 then e\<lparr>name := p2, updated_at := now\<rparr> else e)
          (filter (\<lambda>e. emp_id e = p1) rows)"
    by (rule filter_map_touched) simp
  also have "\<dots> = map (\<lambda>e. e\<lparr>name := p2, updated_at := now\<rparr>) (filter (\<lambda>e. emp_id e = p1) rows)"
    by (rule map_cong) auto
  finally show ?thesis using True ex by (simp add: insert_employee_on_conflict_def)
next
  case False
  then have "\<And>e. e \<in> set rows \<Longrightarrow> emp_id e \<noteq> p1" by auto
  then have "filter (\<lambda>e. emp_id e = p1) rows = []" by (simp add: filter_none)
  with False show ?thesis by (auto simp: insert_employee_on_conflict_def)
qed

lemma insert_employee_named:
  assumes "\<exists>e \<in> set rows. emp_id e = p1"
    and "\<And>e. e \<in> set rows \<Longrightarrow> emp_id e = p1 \<Longrightarrow> name e = p2"
  shows "insert_employee_on_conflict t p1 p2 rows =
         map (\<lambda>e. if emp_id e = p1 then e\<lparr>updated_at := t\<rparr> else e) rows"
proof -
  have "map (\<lambda>e. if emp_id e = p1 then e\<lparr>name := p2, updated_at := t\<rparr> else e) rows =
        map (\<lambda>e. if emp_id e = p1 then e\<lparr>updated_at := t\<rparr> else e) rows"
    by (rule map_cong) (simp_all add: assms(2))
  with assms(1) show ?thesis by (simp add: insert_employee_on_conflict_def)
qed

lemma insert_employee_has_key:
  "\<exists>e \<in> set (insert_employee_on_conflict t p1 p2 rows). emp_id e = p1"
proof -
  have "p1 \<in> emp_id ` set (insert_employee_on_conflict t p1 p2 rows)"
    by (simp add: set_emp_ids_insert_employee)
  then show ?thesis by force
qed

lemma insert_employee_sets_name:
  assumes "e \<in> set (insert_employee_on_conflict t p1 p2 rows)" and "emp_id e = p1"
  shows "name e = p2"
proof -
  from assms have "e \<in> set (filter (\<lambda>e. emp_id e = p1) (insert_employee_on_conflict t p1 p2 rows))"
    by simp
  then show ?thesis
    unfolding insert_employee_key_rows by (auto split: if_splits)
qed

lemma insert_employee_twice:
  "insert_employee_on_conflict t2 p1 p2 (insert_employee_on_conflict t1 p1 p2 rows) =
   map (\<lambda>e. if emp_id e = p1 then e\<lparr>updated_at := t2\<rparr> else e)
     (insert_employee_on_conflict t1 p1 p2 rows)"
  by (rule insert_employee_named) (simp_all add: insert_employee_has_key insert_employee_sets_name)

subsection \<open>The attendance upsert\<close>

lemma insert_attendance_conflict:
  assumes "\<exists>r \<in> set (attendance_records s). rec_emp_id r = p1 \<and> date r = p4"
  shows "insert_attendance_on_conflict now p1 p2 p3 p4 s =
    (Inr (map rec_id (filter (\<lambda>r. rec_emp_id r = p1 \<and> date r = p4) (attendance_records s))),
     s\<lparr>attendance_records_id_seq := attendance_records_id_seq s + 1,
       attendance_records :=
         map (\<lambda>r. if rec_emp_id r = p1 \<and> date r = p4
                   then r\<lparr>emp_name := p2, attendance_type := p3, timestamp := now\<rparr> else r)
           (attendance_records s)\<rparr>)"
  using assms by (simp add: insert_attendance_on_conflict_def Let_def)

lemma insert_attendance_fresh:
  assumes "\<not> (\<exists>r \<in> set (attendance_records s). rec_emp_id r = p1 \<and> date r = p4)"
    and "attendance_records_id_seq s + 1 \<notin> rec_id ` set (attendance_records s)"
    and "p1 \<in> emp_id ` set (employees s)"
  shows "insert_attendance_on_conflict now p1 p2 p3 p4 s =
    (Inr [attendance_records_id_seq s + 1],
     s\<lparr>attendance_records_id_seq := attendance_records_id_seq s + 1,
       attendance_records :=
         attendance_records s @
           [\<lparr>rec_id = attendance_records_id_seq s + 1, rec_emp_id = p1, emp_name = p2,
             attendance_type = p3, date = p4, timestamp = now\<rparr>]\<rparr>)"
  using assms by (simp add: insert_attendance_on_conflict_def Let_def)

lemma insert_attendance_error:
  assumes "insert_attendance_on_conflict now p1 p2 p3 p4 s = (Inl msg, s')"
  shows "s' = s\<lparr>attendance_records_id_seq := attendance_records_id_seq s + 1\<rparr>"
  using assms by (simp add: insert_attendance_on_conflict_def Let_def split: if_splits)

lemma insert_attendance_employees:
  assumes "insert_attendance_on_conflict now p1 p2 p3 p4 s = (res, s')"
  shows "employees s' = employees s"
    and "attendance_records_id_seq s' = attendance_records_id_seq s + 1"
  using assms by (auto simp: insert_attendance_on_conflict_def Let_def split: if_splits)

lemma insert_attendance_returns_a_row:
  assumes "insert_attendance_on_conflict now p1 p2 p3 p4 s = (Inr ids, s')"
  shows "ids \<noteq> []"
proof (cases "\<exists>r \<in> set (attendance_records s). rec_emp_id r = p1 \<and> date r = p4")
  case True
  then have "filter (\<lambda>r. rec_emp_id r = p1 \<and> date r = p4) (attendance_records s) \<noteq> []"
    by (simp add: filter_empty_conv)
  with assms True show ?thesis by (auto simp: insert_attendance_conflict)
next
  case False
  with assms show ?thesis
    by (auto simp: insert_attendance_on_conflict_def Let_def split: if_splits)
qed


lemma insert_attendance_frame:
  assumes "insert_attendance_on_conflict now p1 p2 p3 p4 s = (res, s')"
  shows "filter (\<lambda>r. \<not> (rec_emp_id r = p1 \<and> date r = p4)) (attendance_records s') =
         filter (\<lambda>r. \<not> (rec_emp_id r = p1 \<and> date r = p4)) (attendance_records s)"
proof (cases "\<exists>r \<in> set (attendance_records s). rec_emp_id r = p1 \<and> date r = p4")
  case True
  have "filter (\<lambda>r. \<not> (rec_emp_id r = p1 \<and> date r = p4))
          (map (\<lambda>r. if rec_emp_id r = p1 \<and> date r = p4
                    then r\<lparr>emp_name := p2, attendance_type := p3, timestamp := now\<rparr> else r)
             (attendance_records s)) =
        filter (\<lambda>r. \<not> (rec_emp_id r = p1 \<and> date r = p4)) (attendance_records s)"
    by (rule filter_map_untouched) auto
  with assms True show ?thesis by (auto simp: insert_attendance_conflict)
next
  case False
  with assms show ?thesis
    by (auto simp: insert_attendance_on_conflict_def Let_def split: if_splits)
qed

lemma insert_attendance_keys:
  assumes "insert_attendance_on_conflict now p1 p2 p3 p4 s = (Inr ids, s')"
  shows "map (\<lambda>r. (rec_emp_id r, date r)) (attendance_records s') =
           (if \<exists>r \<in> set (attendance_records s). rec_emp_id r = p1 \<and> date r = p4
            then map (\<lambda>r. (rec_emp_id r, date r)) (attendance_records s)
            else map (\<lambda>r. (rec_emp_id r, date r)) (attendance_records s) @ [(p1, p4)])"
    and "map rec_id (attendance_records s') =
           (if \<exists>r \<in> set (attendance_records s). rec_emp_id r = p1 \<and> date r = p4
            then map rec_id (attendance_records s)
            else map rec_id (attendance_records s) @ [attendance_records_id_seq s + 1])"
    and "map rec_emp_id (attendance_records s') =
           (if \<exists>r \<in> set (attendance_records s). rec_emp_id r = p1 \<and> date r = p4
            then map rec_emp_id (attendance_records s)
            else map rec_emp_id (attendance_records s) @ [p1])"
  using assms by (auto simp: insert_attendance_on_conflict_def Let_def split: if_splits)

lemma foreign_key_columns:
  "foreign_key s \<longleftrightarrow> set (map rec_emp_id (attendance_records s)) \<subseteq> emp_id ` set (employees s)"
  by (auto simp: foreign_key_def)

lemma ids_from_sequence_columns:
  "ids_from_sequence s \<longleftrightarrow>
     (\<forall>i \<in> set (map rec_id (attendance_records s)). i \<le> attendance_records_id_seq s)"
  by (auto simp: ids_from_sequence_def)

lemma insert_attendance_constraints:
  assumes "constraints s" and "insert_attendance_on_conflict now p1 p2 p3 p4 s = (res, s')"
  shows "constraints s'"
proof (cases res)
  case (Inl msg)
  with assms(2) have "s' = s\<lparr>attendance_records_id_seq := attendance_records_id_seq s + 1\<rparr>"
    by (simp add: insert_attendance_error)
  with assms(1) show ?thesis
    by (auto simp: constraints_def primary_key_employees_def primary_key_attendance_def
        unique_emp_date_def foreign_key_def ids_from_sequence_def)
next
  case (Inr ids)
  with assms(2) have r: "insert_attendance_on_conflict now p1 p2 p3 p4 s = (Inr ids, s')" by simp
  note k = insert_attendance_keys [OF r]
  note e = insert_attendance_employees [OF r]
  from assms(1) have c: "primary_key_employees s" "primary_key_attendance s" "unique_emp_date s"
    "foreign_key s" "ids_from_sequence s"
    by (simp_all add: constraints_def)
  have pe: "primary_key_employees s'"
    using c(1) e(1) by (simp add: primary_key_employees_def)
  show ?thesis
  proof (cases "\<exists>r \<in> set (attendance_records s). rec_emp_id r = p1 \<and> date r = p4")
    case True
    have pk: "primary_key_attendance s'" and un: "unique_emp_date s'"
      using c(2,3) True k(1,2)
      by (simp_all add: primary_key_attendance_def unique_emp_date_def)
    from True k(2,3) have m: "map rec_id (attendance_records s') = map rec_id (attendance_records s)"
      "map rec_emp_id (attendance_records s') = map rec_emp_id (attendance_records s)"
      by simp_all
    have fk: "foreign_key s'"
      using c(4) unfolding foreign_key_columns m e(1) .
    have sq: "ids_from_sequence s'"
      using c(5) unfolding ids_from_sequence_columns m e(2) by auto
    from pe pk un fk sq show ?thesis
      by (simp add: constraints_def)
  next
    case False
    from r False have fresh: "attendance_records_id_seq s + 1 \<notin> rec_id ` set (attendance_records s)"
      and known: "p1 \<in> emp_id ` set (employees s)"
      by (auto simp: insert_attendance_on_conflict_def Let_def split: if_splits)
    from False have nokey: "(p1, p4) \<notin> set (map (\<lambda>r. (rec_emp_id r, date r)) (attendance_records s))"
      by auto
    have pk: "primary_key_attendance s'"
      using c(2) False k(2) fresh
      by (simp add: primary_key_attendance_def)
    have un: "unique_emp_date s'"
      using c(3) False k(1) nokey
      by (simp add: unique_emp_date_def)
    from False k(2,3) have m:
      "map rec_id (attendance_records s') =
         map rec_id (attendance_records s) @ [attendance_records_id_seq s + 1]"
      "map rec_emp_id (attendance_records s') = map rec_emp_id (attendance_records s) @ [p1]"
      by simp_all
    have fk: "foreign_key s'"
      using c(4) known unfolding foreign_key_columns m e(1) by auto
    have sq: "ids_from_sequence s'"
      using c(5) unfolding ids_from_sequence_columns m e(2) by auto
    from pe pk un fk sq show ?thesis
      by (simp add: constraints_def)
  qed
qed

lemma insert_attendance_succeeds:
  assumes "constraints s" and "p1 \<in> emp_id ` set (employees s)"
  shows "\<exists>ids. fst (insert_attendance_on_conflict now p1 p2 p3 p4 s) = Inr ids"
proof -
  from assms(1) have "attendance_records_id_seq s + 1 \<notin> rec_id ` set (attendance_records s)"
    by (force simp: constraints_def ids_from_sequence_def)
  with assms(2) show ?thesis
    by (simp add: insert_attendance_on_conflict_def Let_def)
qed

subsection \<open>The transaction of POST /attendance\<close>

text \<open>A throw of the \<^verbatim>\<open>try\<close> block leaves both tables as they were stored: the
  branch that throws after the commit is never taken, since the upsert returns a row.\<close>

lemma attendance_transaction_throws:
  assumes "attendance_transaction eng now p1 p2 p3 p4 s = Inl (msg, s')"
  shows "employees s' = employees s \<and> attendance_records s' = attendance_records s"
proof -
  let ?w = "s\<lparr>employees := insert_employee_on_conflict now p1 p2 (employees s)\<rparr>"
  obtain res w' where st: "insert_attendance_on_conflict now p1 p2 p3 p4 ?w = (res, w')"
    by (cases "insert_attendance_on_conflict now p1 p2 p3 p4 ?w")
  show ?thesis
  proof (cases res)
    case (Inl m)
    with assms st show ?thesis
      by (auto simp: attendance_transaction_def Let_def split: option.splits)
  next
    case (Inr ids)
    with st have "ids \<noteq> []" by (simp add: insert_attendance_returns_a_row)
    then obtain i rest where "ids = i # rest" by (cases ids) auto
    with assms st Inr show ?thesis
      by (auto simp: attendance_transaction_def Let_def split: option.splits)
  qed
qed

lemma attendance_transaction_returns:
  assumes "attendance_transaction eng now p1 p2 p3 p4 s = Inr (i, s')"
  shows "eng BEGIN = None \<and> eng UPSERT_EMPLOYEE = None \<and> eng UPSERT_ATTENDANCE = None \<and>
         eng COMMIT = None \<and>
         (\<exists>rest. insert_attendance_on_conflict now p1 p2 p3 p4
                   (s\<lparr>employees := insert_employee_on_conflict now p1 p2 (employees s)\<rparr>) =
                 (Inr (i # rest), s'))"
  using assms
  by (auto simp: attendance_transaction_def Let_def split: option.splits sum.splits list.splits prod.splits)

lemma attendance_transaction_commits:
  assumes "eng BEGIN = None" "eng UPSERT_EMPLOYEE = None" "eng UPSERT_ATTENDANCE = None"
    "eng COMMIT = None"
    and "insert_attendance_on_conflict now p1 p2 p3 p4
           (s\<lparr>employees := insert_employee_on_conflict now p1 p2 (employees s)\<rparr>) =
         (Inr (i # rest), s')"
  shows "attendance_transaction eng now p1 p2 p3 p4 s = Inr (i, s')"
  using assms by (simp add: attendance_transaction_def Let_def)

subsection \<open>The handlers that write\<close>

lemma post_attendance_saved:
  assumes "post_attendance eng now e n t d s = (Responded 200 b, s')"
  shows "\<exists>p4 i. d = Some p4 \<and> \<not> falsy e \<and> \<not> falsy n \<and> \<not> falsy t \<and> eng CONNECT = None \<and>
           b = Attendance_saved ''Attendance record added successfully'' i \<and>
           attendance_transaction eng now (param_text e) (param_text n) (param_text t) p4 s =
             Inr (i, s')"
  using assms
  by (auto simp: post_attendance_def split: option.splits if_splits sum.splits prod.splits)

lemma post_attendance_not_saved:
  assumes "post_attendance eng now e n t d s = (out, s')" and "\<And>b. out \<noteq> Responded 200 b"
  shows "employees s' = employees s \<and> attendance_records s' = attendance_records s"
proof (cases "d = None \<or> falsy e \<or> falsy n \<or> falsy t \<or> eng CONNECT \<noteq> None")
  case True
  with assms(1) show ?thesis
    by (auto simp: post_attendance_def split: option.splits if_splits)
next
  case False
  then obtain p4 where d: "d = Some p4" by auto
  show ?thesis
  proof (cases "attendance_transaction eng now (param_text e) (param_text n) (param_text t) p4 s")
    case (Inl a)
    obtain msg s0 where a: "a = (msg, s0)" by (cases a)
    from Inl a have "employees s0 = employees s \<and> attendance_records s0 = attendance_records s"
      by (simp add: attendance_transaction_throws)
    moreover from assms(1) False d Inl a have "s' = s0"
      by (auto simp: post_attendance_def split: option.splits)
    ultimately show ?thesis by simp
  next
    case (Inr a)
    obtain i s1 where "a = (i, s1)" by (cases a)
    with assms(1) False d Inr
    have "out = Responded 200 (Attendance_saved ''Attendance record added successfully'' i)"
      by (auto simp: post_attendance_def)
    with assms(2) show ?thesis by blast
  qed
qed

lemma employees_upserted_constraints:
  assumes "constraints s"
  shows "constraints (s\<lparr>employees := insert_employee_on_conflict now p1 p2 (employees s)\<rparr>)"
  using assms
  by (auto simp: constraints_def primary_key_employees_def primary_key_attendance_def
      unique_emp_date_def foreign_key_def ids_from_sequence_def
      distinct_insert_employee set_emp_ids_insert_employee)

lemma post_employees_constraints:
  assumes "constraints s"
  shows "constraints (snd (post_employees eng now e n s))"
  using assms employees_upserted_constraints [OF assms]
  by (simp add: post_employees_def split: option.splits)

lemma sequence_drawn_constraints:
  assumes "constraints s" and "attendance_records_id_seq s \<le> k"
  shows "constraints (s\<lparr>attendance_records_id_seq := k\<rparr>)"
  using assms
  by (force simp: constraints_def primary_key_employees_def primary_key_attendance_def
      unique_emp_date_def foreign_key_def ids_from_sequence_def)

lemma attendance_transaction_sequence:
  assumes "attendance_transaction eng now p1 p2 p3 p4 s = Inl (msg, s')"
  shows "attendance_records_id_seq s \<le> attendance_records_id_seq s'"
proof -
  let ?w = "s\<lparr>employees := insert_employee_on_conflict now p1 p2 (employees s)\<rparr>"
  obtain res w' where st: "insert_attendance_on_conflict now p1 p2 p3 p4 ?w = (res, w')"
    by (cases "insert_attendance_on_conflict now p1 p2 p3 p4 ?w")
  from insert_attendance_employees(2) [OF st]
  have "attendance_records_id_seq w' = attendance_records_id_seq s + 1" by simp
  with assms st show ?thesis
    by (auto simp: attendance_transaction_def Let_def split: option.splits sum.splits list.splits)
qed

lemma constraints_same_tables:
  assumes "constraints s" and "employees s' = employees s"
    and "attendance_records s' = attendance_records s"
    and "attendance_records_id_seq s \<le> attendance_records_id_seq s'"
  shows "constraints s'"
  using assms
  by (force simp: constraints_def primary_key_employees_def primary_key_attendance_def
      unique_emp_date_def foreign_key_def ids_from_sequence_def)

lemma post_attendance_sequence:
  assumes "post_attendance eng now e n t d s = (out, s')" and "\<And>b. out \<noteq> Responded 200 b"
  shows "attendance_records_id_seq s \<le> attendance_records_id_seq s'"
proof (cases "d = None \<or> falsy e \<or> falsy n \<or> falsy t \<or> eng CONNECT \<noteq> None")
  case True
  with assms(1) show ?thesis
    by (auto simp: post_attendance_def split: option.splits if_splits)
next
  case False
  then obtain p4 where d: "d = Some p4" by auto
  show ?thesis
  proof (cases "attendance_transaction eng now (param_text e) (param_text n) (param_text t) p4 s")
    case (Inl a)
    obtain msg s0 where a: "a = (msg, s0)" by (cases a)
    from Inl a have "attendance_records_id_seq s \<le> attendance_records_id_seq s0"
      by (simp add: attendance_transaction_sequence)
    moreover from assms(1) False d Inl a have "s' = s0"
      by (auto simp: post_attendance_def split: option.splits)
    ultimately show ?thesis by simp
  next
    case (Inr a)
    obtain i s1 where "a = (i, s1)" by (cases a)
    with assms(1) False d Inr
    have "out = Responded 200 (Attendance_saved ''Attendance record added successfully'' i)"
      by (auto simp: post_attendance_def)
    with assms(2) show ?thesis by blast
  qed
qed

lemma post_attendance_constraints:
  assumes "constraints s"
  shows "constraints (snd (post_attendance eng now e n t d s))"
proof -
  obtain out s' where r: "post_attendance eng now e n t d s = (out, s')"
    by (cases "post_attendance eng now e n t d s")
  show ?thesis
  proof (cases "\<exists>b. out = Responded 200 b")
    case True
    then obtain b where "out = Responded 200 b" ..
    with r obtain p4 i where
      "attendance_transaction eng now (param_text e) (param_text n) (param_text t) p4 s = Inr (i, s')"
      using post_attendance_saved by blast
    then obtain rest where
      "insert_attendance_on_conflict now (param_text e) (param_text n) (param_text t) p4
         (s\<lparr>employees := insert_employee_on_conflict now (param_text e) (param_text n) (employees s)\<rparr>) =
       (Inr (i # rest), s')"
      using attendance_transaction_returns by blast
    with employees_upserted_constraints [OF assms] have "constraints s'"
      by (rule insert_attendance_constraints)
    with r show ?thesis by simp
  next
    case False
    then have n: "\<And>b. out \<noteq> Responded 200 b" by blast
    from post_attendance_not_saved [OF r n] post_attendance_sequence [OF r n] assms
    have "constraints s'" by (auto intro: constraints_same_tables)
    with r show ?thesis by simp
  qed
qed

subsection \<open>The statements with a WHERE clause\<close>

lemma where_id_eq:
  "where_clause [Id_eq (Suc 0)] [Text_value t] =
     (case int4_in t of
        None \<Rightarrow> Inl ''invalid input syntax for the type of a parameter''
      | Some i \<Rightarrow> Inr (\<lambda>r. rec_id r = i))"
  by (simp add: where_clause_def parameters_required_def param_def split: option.splits)

lemma delete_attendance_healthy:
  assumes "eng DELETE_BY_ID = None" and "int4_in t = Some i"
  shows "delete_attendance eng t s =
    (if \<exists>r \<in> set (attendance_records s). rec_id r = i
     then Responded 200 (Message ''Record deleted successfully'')
     else Responded 404 (Error ''Record not found''),
     s\<lparr>attendance_records := filter (\<lambda>r. rec_id r \<noteq> i) (attendance_records s)\<rparr>)"
  using assms
  by (auto simp: delete_attendance_def delete_where_def where_id_eq filter_empty_conv)

lemma delete_attendance_rejected:
  assumes "eng DELETE_BY_ID = Some msg"
  shows "delete_attendance eng t s = (Responded 500 (Error msg), s)"
  using assms by (simp add: delete_attendance_def)

text \<open>A path segment that the engine does not read as a 32-bit integer is answered 500,
  and nothing is deleted.\<close>

lemma delete_attendance_not_an_integer:
  assumes "eng DELETE_BY_ID = None" and "int4_in t = None"
  shows "delete_attendance eng t s =
    (Responded 500 (Error ''invalid input syntax for the type of a parameter''), s)"
  using assms by (simp add: delete_attendance_def delete_where_def where_id_eq)

lemma delete_attendance_constraints:
  assumes "constraints s"
  shows "constraints (snd (delete_attendance eng t s))"
proof (cases "eng DELETE_BY_ID")
  case None
  have c: "constraints (s\<lparr>attendance_records := filter P (attendance_records s)\<rparr>)" for P
    using assms
    by (auto simp: constraints_def primary_key_employees_def primary_key_attendance_def
        unique_emp_date_def foreign_key_def ids_from_sequence_def distinct_map_filter)
  show ?thesis
  proof (cases "int4_in t")
    case no: None
    with None assms show ?thesis by (simp add: delete_attendance_not_an_integer)
  next
    case (Some i)
    with None c show ?thesis by (simp add: delete_attendance_healthy)
  qed
next
  case (Some msg)
  with assms show ?thesis by (simp add: delete_attendance_rejected)
qed

subsection \<open>Every reachable state satisfies the constraints of the schema\<close>

lemma empty_database_constraints: "constraints empty_database"
  by (simp add: constraints_def primary_key_employees_def primary_key_attendance_def
      unique_emp_date_def foreign_key_def ids_from_sequence_def empty_database_def)

lemma handle_constraints:
  "constraints s \<Longrightarrow> constraints (snd (handle eng now req s))"
  by (cases req)
    (simp_all add: post_employees_constraints post_attendance_constraints
      delete_attendance_constraints)

lemma reachable_constraints: "reachable s \<Longrightarrow> constraints s"
  by (induction rule: reachable.induct)
    (simp_all add: empty_database_constraints handle_constraints)

section \<open>The example store\<close>

lemma example_database_rows:
  "example_database =
     \<lparr>employees =
        [\<lparr>emp_id = ''E1'', name = ''Alice'', created_at = 10, updated_at = 12\<rparr>,
         \<lparr>emp_id = ''E2'', name = ''Bob'', created_at = 11, updated_at = 11\<rparr>],
      attendance_records =
        [\<lparr>rec_id = 1, rec_emp_id = ''E1'', emp_name = ''Alice'', attendance_type = ''WFO'',
          date = 100, timestamp = 10\<rparr>,
         \<lparr>rec_id = 2, rec_emp_id = ''E2'', emp_name = ''Bob'', attendance_type = ''WFH'',
          date = 100, timestamp = 11\<rparr>,
         \<lparr>rec_id = 3, rec_emp_id = ''E1'', emp_name = ''Alice'', attendance_type = ''WFH'',
          date = 101, timestamp = 12\<rparr>],
      attendance_records_id_seq = 3\<rparr>"
  by (simp add: example_database_def serve_def post_attendance_def healthy_def falsy_def
      param_text_def attendance_transaction_def insert_employee_on_conflict_def
      insert_attendance_on_conflict_def empty_database_def Let_def)

lemma reachable_serve: "reachable s \<Longrightarrow> reachable (serve eng reqs s)"
proof (induction reqs arbitrary: s)
  case Nil
  then show ?case by (simp add: serve_def)
next
  case (Cons a reqs)
  obtain now req where a: "a = (now, req)" by (cases a)
  from Cons.prems have "reachable (snd (handle eng now req s))" by (rule reachable.served)
  then have "reachable (serve eng reqs (snd (handle eng now req s)))" by (rule Cons.IH)
  with a show ?case by (simp add: serve_def)
qed

lemma reachable_example_database: "reachable example_database"
  unfolding example_database_def by (rule reachable_serve) (rule reachable.fresh)

subsection \<open>The two example writes\<close>

lemma first_write_value:
  "first_write =
     (Responded 200 (Attendance_saved ''Attendance record added successfully'' 4),
      \<lparr>employees =
        [\<lparr>emp_id = ''E1'', name = ''Alice'', created_at = 10, updated_at = 12\<rparr>,
         \<lparr>emp_id = ''E2'', name = ''Bob'', created_at = 11, updated_at = 11\<rparr>,
         \<lparr>emp_id = ''E3'', name = ''Carol'', created_at = 13, updated_at = 13\<rparr>],
      attendance_records =
        [\<lparr>rec_id = 1, rec_emp_id = ''E1'', emp_name = ''Alice'', attendance_type = ''WFO'',
          date = 100, timestamp = 10\<rparr>,
         \<lparr>rec_id = 2, rec_emp_id = ''E2'', emp_name = ''Bob'', attendance_type = ''WFH'',
          date = 100, timestamp = 11\<rparr>,
         \<lparr>rec_id = 3, rec_emp_id = ''E1'', emp_name = ''Alice'', attendance_type = ''WFH'',
          date = 101, timestamp = 12\<rparr>,
         \<lparr>rec_id = 4, rec_emp_id = ''E3'', emp_name = ''Carol'', attendance_type = ''WFO'',
          date = 101, timestamp = 13\<rparr>],
      attendance_records_id_seq = 4\<rparr>)"
  by (simp add: first_write_def example_database_rows post_attendance_def healthy_def falsy_def
      param_text_def attendance_transaction_def insert_employee_on_conflict_def
      insert_attendance_on_conflict_def Let_def)

lemma second_write_value:
  "second_write =
     (Responded 200 (Attendance_saved ''Attendance record added successfully'' 4),
      \<lparr>employees =
        [\<lparr>emp_id = ''E1'', name = ''Alice'', created_at = 10, updated_at = 12\<rparr>,
         \<lparr>emp_id = ''E2'', name = ''Bob'', created_at = 11, updated_at = 11\<rparr>,
         \<lparr>emp_id = ''E3'', name = ''Carol D'', created_at = 13, updated_at = 14\<rparr>],
      attendance_records =
        [\<lparr>rec_id = 1, rec_emp_id = ''E1'', emp_name = ''Alice'', attendance_type = ''WFO'',
          date = 100, timestamp = 10\<rparr>,
         \<lparr>rec_id = 2, rec_emp_id = ''E2'', emp_name = ''Bob'', attendance_type = ''WFH'',
          date = 100, timestamp = 11\<rparr>,
         \<lparr>rec_id = 3, rec_emp_id = ''E1'', emp_name = ''Alice'', attendance_type = ''WFH'',
          date = 101, timestamp = 12\<rparr>,
         \<lparr>rec_id = 4, rec_emp_id = ''E3'', emp_name = ''Carol D'', attendance_type = ''WFH'',
          date = 101, timestamp = 14\<rparr>],
      attendance_records_id_seq = 5\<rparr>)"
  by (simp add: second_write_def first_write_value post_attendance_def healthy_def falsy_def
      param_text_def attendance_transaction_def insert_employee_on_conflict_def
      insert_attendance_on_conflict_def Let_def)


section \<open>Validation of the request fields\<close>

text \<open>
  C8. A POST /employees whose \<^verbatim>\<open>emp_id\<close> or \<^verbatim>\<open>name\<close> is missing or empty, and a
  POST /attendance whose \<^verbatim>\<open>emp_id\<close>, \<^verbatim>\<open>emp_name\<close>, \<^verbatim>\<open>attendance_type\<close> or
  \<^verbatim>\<open>date\<close> is missing or empty, is answered with status 400 and leaves the stored
  state as it was. The answer is the same under every engine, also one that rejects
  every call: the handler returns before it reaches a statement.
\<close>

theorem missing_fields_are_rejected:
  "(falsy e \<or> falsy n \<longrightarrow>
      post_employees eng now e n s =
        (Responded 400 (Error ''Employee ID and name are required''), s)) \<and>
   (falsy e \<or> falsy n \<or> falsy t \<or> d = None \<longrightarrow>
      post_attendance eng now e n t d s =
        (Responded 400 (Error ''All fields are required''), s))"
  by (auto simp: post_employees_def post_attendance_def split: option.splits)

theorem missing_fields_are_rejected_witness:
  "post_employees (\<lambda>site. Some ''the engine is down'') 5 (Some []) (Some ''Alice'') empty_database =
     (Responded 400 (Error ''Employee ID and name are required''), empty_database) \<and>
   post_attendance (\<lambda>site. Some ''the engine is down'') 5 (Some []) (Some ''Alice'') None (Some 100)
       empty_database =
     (Responded 400 (Error ''All fields are required''), empty_database)"
  using missing_fields_are_rejected
    [of "Some []" "Some ''Alice''" "\<lambda>site. Some ''the engine is down''" 5 empty_database None "Some 100"]
  by (simp add: falsy_def)

section \<open>The employee upsert, called twice\<close>

text \<open>
  C4, as the claim states it, fails: the second call refreshes \<^verbatim>\<open>updated_at\<close>, so
  the table after two calls at the ticks 1 and 2 is neither the table after one call
  at tick 1 nor the table after one call at tick 2 (whose \<^verbatim>\<open>created_at\<close> is 2).
\<close>

theorem employee_upsert_twice_counterexample:
  "employees (snd (post_employees healthy 2 (Some ''E1'') (Some ''Alice'')
      (snd (post_employees healthy 1 (Some ''E1'') (Some ''Alice'') empty_database)))) \<noteq>
   employees (snd (post_employees healthy 1 (Some ''E1'') (Some ''Alice'') empty_database)) \<and>
   employees (snd (post_employees healthy 2 (Some ''E1'') (Some ''Alice'')
      (snd (post_employees healthy 1 (Some ''E1'') (Some ''Alice'') empty_database)))) \<noteq>
   employees (snd (post_employees healthy 2 (Some ''E1'') (Some ''Alice'') empty_database))"
  by (simp add: post_employees_def healthy_def falsy_def param_text_def empty_database_def
      insert_employee_on_conflict_def)

lemma post_employees_healthy:
  assumes "\<not> falsy e" "\<not> falsy n"
  shows "post_employees healthy now e n s =
    (Responded 200 (Employee_saved ''Employee saved successfully'' (param_text e)),
     s\<lparr>employees := insert_employee_on_conflict now (param_text e) (param_text n) (employees s)\<rparr>)"
  using assms by (simp add: post_employees_def healthy_def)

text \<open>
  C4, amended. With both fields present and the engine executing the statement, the
  table after two calls is the table after the first call with \<^verbatim>\<open>updated_at\<close> of
  that employee's row set to the tick of the second call: the same rows in the same
  order, with the same \<^verbatim>\<open>emp_id\<close>, \<^verbatim>\<open>name\<close> and \<^verbatim>\<open>created_at\<close>. And under the
  primary key, two calls for one \<^verbatim>\<open>emp_id\<close> with different names leave exactly one
  row with that \<^verbatim>\<open>emp_id\<close>, which carries the later name.
\<close>

theorem employee_upsert_idempotent_up_to_updated_at:
  assumes "\<not> falsy e" and "\<not> falsy n" and "\<not> falsy n'"
  shows
    "employees (snd (post_employees healthy t2 e n (snd (post_employees healthy t1 e n s)))) =
       map (\<lambda>r. if emp_id r = param_text e then r\<lparr>updated_at := t2\<rparr> else r)
         (employees (snd (post_employees healthy t1 e n s))) \<and>
     (primary_key_employees s \<longrightarrow>
       (\<exists>r. filter (\<lambda>r. emp_id r = param_text e)
              (employees (snd (post_employees healthy t2 e n'
                 (snd (post_employees healthy t1 e n s))))) = [r] \<and>
            name r = param_text n'))"
proof (intro conjI impI)
  show "employees (snd (post_employees healthy t2 e n (snd (post_employees healthy t1 e n s)))) =
       map (\<lambda>r. if emp_id r = param_text e then r\<lparr>updated_at := t2\<rparr> else r)
         (employees (snd (post_employees healthy t1 e n s)))"
    using assms by (simp add: post_employees_healthy insert_employee_twice)
next
  assume pk: "primary_key_employees s"
  let ?rows1 = "insert_employee_on_conflict t1 (param_text e) (param_text n) (employees s)"
  let ?key = "\<lambda>r. emp_id r = param_text e"
  have known: "param_text e \<in> emp_id ` set ?rows1"
    by (simp add: set_emp_ids_insert_employee)
  from pk have "distinct (map emp_id ?rows1)"
    by (simp add: primary_key_employees_def distinct_insert_employee)
  with known have "length (filter ?key ?rows1) = 1"
    by (rule distinct_filter_key_length [rotated])
  then obtain r0 where r0: "filter ?key ?rows1 = [r0]"
    by (cases "filter ?key ?rows1") auto
  have "filter ?key (insert_employee_on_conflict t2 (param_text e) (param_text n') ?rows1) =
        [r0\<lparr>name := param_text n', updated_at := t2\<rparr>]"
    using known r0 by (simp add: insert_employee_key_rows)
  then show "\<exists>r. filter ?key
              (employees (snd (post_employees healthy t2 e n'
                 (snd (post_employees healthy t1 e n s))))) = [r] \<and>
            name r = param_text n'"
    using assms by (simp add: post_employees_healthy)
qed

theorem employee_upsert_idempotent_up_to_updated_at_witness:
  "employees (snd (post_employees healthy 2 (Some ''E1'') (Some ''Alice'')
      (snd (post_employees healthy 1 (Some ''E1'') (Some ''Alice'') empty_database)))) =
     map (\<lambda>r. if emp_id r = ''E1'' then r\<lparr>updated_at := 2\<rparr> else r)
       (employees (snd (post_employees healthy 1 (Some ''E1'') (Some ''Alice'') empty_database))) \<and>
   primary_key_employees empty_database \<and>
   (\<exists>r. filter (\<lambda>r. emp_id r = ''E1'')
          (employees (snd (post_employees healthy 2 (Some ''E1'') (Some ''Alicia'')
             (snd (post_employees healthy 1 (Some ''E1'') (Some ''Alice'') empty_database))))) = [r] \<and>
        name r = ''Alicia'')"
  using employee_upsert_idempotent_up_to_updated_at
    [of "Some ''E1''" "Some ''Alice''" "Some ''Alicia''" 2 1 empty_database]
  by (simp add: falsy_def param_text_def primary_key_employees_def empty_database_def)

section \<open>Deleting a record\<close>

lemma length_filter_other_key:
  assumes "distinct (map f xs)" and "k \<in> f ` set xs"
  shows "length (filter (\<lambda>x. f x \<noteq> k) xs) + 1 = length xs"
proof -
  have "length (filter (\<lambda>x. f x = k) xs) + length (filter (\<lambda>x. \<not> f x = k) xs) = length xs"
    by (rule sum_length_filter_compl)
  with distinct_filter_key_length [OF assms] show ?thesis by simp
qed

text \<open>
  C7, as the claim states it, fails: it promises the 404 for every id that no row
  carries. The path segment is bound as it comes to the 32-bit \<^verbatim>\<open>id\<close> column, so for
  \<^verbatim>\<open>2147483648\<close>, which no row carries, and for \<^verbatim>\<open>abc\<close> the statement fails and the
  answer is 500.
\<close>

theorem delete_by_id_counterexample:
  "map rec_id (attendance_records example_database) = [1, 2, 3] \<and>
   delete_attendance healthy ''2147483648'' example_database =
     (Responded 500 (Error ''invalid input syntax for the type of a parameter''),
      example_database) \<and>
   delete_attendance healthy ''abc'' example_database =
     (Responded 500 (Error ''invalid input syntax for the type of a parameter''),
      example_database)"
proof -
  have "int4_in ''2147483648'' = None"
    by (simp add: int4_in_def is_space_def digit_def int4_range_def)
  moreover have "int4_in ''abc'' = None"
    by (simp add: int4_in_def is_space_def digit_def)
  ultimately show ?thesis
    by (simp add: delete_attendance_not_an_integer healthy_def example_database_rows)
qed

text \<open>
  C7, amended. For an id that is the decimal text of an integer of the 32-bit \<^verbatim>\<open>id\<close>
  column, and with the engine executing the statement, DELETE /attendance/:id for an id
  that a row carries answers 200 with a message and leaves the table without the rows
  of that id and with every other row, the employees untouched; under the primary key
  that is one row less. For an id that no row carries it answers 404 and the stored
  state is the one before.
\<close>

theorem delete_by_id:
  assumes "int4_in id_text = Some i"
  shows
  "delete_attendance healthy id_text s =
     (if \<exists>r \<in> set (attendance_records s). rec_id r = i
      then (Responded 200 (Message ''Record deleted successfully''),
            s\<lparr>attendance_records := filter (\<lambda>r. rec_id r \<noteq> i) (attendance_records s)\<rparr>)
      else (Responded 404 (Error ''Record not found''), s)) \<and>
   (primary_key_attendance s \<and> (\<exists>r \<in> set (attendance_records s). rec_id r = i) \<longrightarrow>
      length (attendance_records (snd (delete_attendance healthy id_text s))) + 1 =
        length (attendance_records s))"
proof (rule conjI; (rule impI)?)
  have "filter (\<lambda>r. rec_id r \<noteq> i) (attendance_records s) = attendance_records s"
    if "\<not> (\<exists>r \<in> set (attendance_records s). rec_id r = i)"
    using that by (simp add: filter_id_conv)
  then show "delete_attendance healthy id_text s =
     (if \<exists>r \<in> set (attendance_records s). rec_id r = i
      then (Responded 200 (Message ''Record deleted successfully''),
            s\<lparr>attendance_records := filter (\<lambda>r. rec_id r \<noteq> i) (attendance_records s)\<rparr>)
      else (Responded 404 (Error ''Record not found''), s))"
    using assms by (simp add: delete_attendance_healthy healthy_def)
next
  assume a: "primary_key_attendance s \<and> (\<exists>r \<in> set (attendance_records s). rec_id r = i)"
  then have "distinct (map rec_id (attendance_records s))" "i \<in> rec_id ` set (attendance_records s)"
    by (auto simp: primary_key_attendance_def)
  then have "length (filter (\<lambda>r. rec_id r \<noteq> i) (attendance_records s)) + 1 =
             length (attendance_records s)"
    by (rule length_filter_other_key)
  then show "length (attendance_records (snd (delete_attendance healthy id_text s))) + 1 =
        length (attendance_records s)"
    using assms by (simp add: delete_attendance_healthy healthy_def)
qed

theorem delete_by_id_witness:
  "int4_in ''2'' = Some 2 \<and> int4_in ''7'' = Some 7 \<and> int4_in ''2147483647'' = Some 2147483647 \<and>
   delete_attendance healthy ''2'' example_database =
     (Responded 200 (Message ''Record deleted successfully''),
      example_database\<lparr>attendance_records :=
        [\<lparr>rec_id = 1, rec_emp_id = ''E1'', emp_name = ''Alice'', attendance_type = ''WFO'',
          date = 100, timestamp = 10\<rparr>,
         \<lparr>rec_id = 3, rec_emp_id = ''E1'', emp_name = ''Alice'', attendance_type = ''WFH'',
          date = 101, timestamp = 12\<rparr>]\<rparr>) \<and>
   primary_key_attendance example_database \<and>
   length (attendance_records (snd (delete_attendance healthy ''2'' example_database))) + 1 = 3 \<and>
   delete_attendance healthy ''7'' example_database =
     (Responded 404 (Error ''Record not found''), example_database) \<and>
   delete_attendance healthy ''2147483647'' example_database =
     (Responded 404 (Error ''Record not found''), example_database)"
proof -
  have 2: "int4_in ''2'' = Some 2" and 7: "int4_in ''7'' = Some 7"
    and m: "int4_in ''2147483647'' = Some 2147483647"
    by (simp_all add: int4_in_def is_space_def digit_def int4_range_def)
  from delete_by_id [OF 2, of example_database] delete_by_id [OF 7, of example_database]
    delete_by_id [OF m, of example_database] 2 7 m
  show ?thesis
    by (simp add: example_database_rows primary_key_attendance_def)
qed

section \<open>The listings\<close>

subsection \<open>The statement the filtered listing builds\<close>

lemma where_clause_filtered:
  assumes "add_attendance_type t (add_end_date b (add_start_date a ([Always], [], 0))) =
           (query, params, paramCount)"
  shows "\<exists>holds. where_clause query params = Inr holds \<and> (\<forall>r. holds r = satisfies_filters a b t r)"
  using assms
  by (cases a; cases b; cases t)
    (auto simp: add_start_date_def add_end_date_def add_attendance_type_def falsy_def
      param_text_def where_clause_def parameters_required_def param_def satisfies_filters_def
      nth_append split: if_splits)


lemma select_filtered:
  assumes "add_attendance_type t (add_end_date b (add_start_date a ([Always], [], 0))) =
           (query, params, paramCount)"
  shows "select_where query params rows = Inr (filter (satisfies_filters a b t) rows)"
proof -
  from where_clause_filtered [OF assms] obtain holds
    where h: "where_clause query params = Inr holds" "\<And>r. holds r = satisfies_filters a b t r"
    by blast
  from h(2) have "filter holds rows = filter (satisfies_filters a b t) rows"
    by (simp cong: filter_cong)
  with h(1) show ?thesis by (simp add: select_where_def)
qed

lemma select_range:
  "select_where [Emp_eq (Suc 0), Date_between 2 3] [Text_value e, Date_value a, Date_value b] rows =
     Inr (filter (\<lambda>r. rec_emp_id r = e \<and> a \<le> date r \<and> date r \<le> b) rows)"
  by (simp add: select_where_def where_clause_def parameters_required_def param_def)

subsection \<open>The orders\<close>

lemma order_by_date_desc_emp_id_sorted:
  "sorted_wrt date_desc_then_emp_id (order_by_date_desc_emp_id rows)"
proof -
  have "sorted (map (\<lambda>r. (- date r, rec_emp_id r)) (order_by_date_desc_emp_id rows))"
    unfolding order_by_date_desc_emp_id_def by (rule sorted_sort_key)
  then have "sorted_wrt (\<lambda>x y. (- date x, rec_emp_id x) \<le> (- date y, rec_emp_id y))
               (order_by_date_desc_emp_id rows)"
    by (simp add: sorted_map)
  then show ?thesis
    by (rule sorted_wrt_mono_rel [rotated])
      (auto simp: date_desc_then_emp_id_def less_eq_prod_def)
qed

lemma order_by_date_desc_sorted:
  "sorted_wrt date_desc (order_by_date_desc rows)"
proof -
  have "sorted (map (\<lambda>r. - date r) (order_by_date_desc rows))"
    unfolding order_by_date_desc_def by (rule sorted_sort_key)
  then have "sorted_wrt (\<lambda>x y. - date x \<le> - date y) (order_by_date_desc rows)"
    by (simp add: sorted_map)
  then show ?thesis
    by (rule sorted_wrt_mono_rel [rotated]) (simp add: date_desc_def)
qed

lemma mset_order_by [simp]:
  "mset (order_by_date_desc_emp_id rows) = mset rows"
  "mset (order_by_date_desc rows) = mset rows"
  by (simp_all add: order_by_date_desc_emp_id_def order_by_date_desc_def)

subsection \<open>GET /attendance\<close>

text \<open>
  C5. With the engine executing the statement, GET /attendance answers 200 for every
  combination of the three filters, and the rows of the answer are exactly the stored
  records (each as often as it is stored) that satisfy every provided filter: date not
  before \<^verbatim>\<open>start_date\<close>, date not after \<^verbatim>\<open>end_date\<close>, \<^verbatim>\<open>attendance_type\<close> equal. A
  filter that is absent or empty constrains nothing; without filters the answer holds
  every record. The rows come by date descending and, within a date, by employee id
  ascending.
\<close>

theorem filtered_listing:
  "(\<exists>rows. get_attendance healthy start_date end_date attendance_type_filter s =
             Responded 200 (Records rows) \<and>
           mset rows =
             filter_mset (satisfies_filters start_date end_date attendance_type_filter)
               (mset (attendance_records s)) \<and>
           sorted_wrt date_desc_then_emp_id rows) \<and>
   (\<exists>rows. get_attendance healthy None None None s = Responded 200 (Records rows) \<and>
           mset rows = mset (attendance_records s))"
proof -
  have listing: "\<exists>rows. get_attendance healthy a b t s = Responded 200 (Records rows) \<and>
           mset rows = filter_mset (satisfies_filters a b t) (mset (attendance_records s)) \<and>
           sorted_wrt date_desc_then_emp_id rows" for a b t
  proof -
    obtain query params paramCount where
      q: "add_attendance_type t (add_end_date b (add_start_date a ([Always], [], 0))) =
          (query, params, paramCount)"
      by (cases "add_attendance_type t (add_end_date b (add_start_date a ([Always], [], 0)))")
    have "get_attendance healthy a b t s =
          Responded 200 (Records (order_by_date_desc_emp_id
            (filter (satisfies_filters a b t) (attendance_records s))))"
      by (simp add: get_attendance_def q healthy_def select_filtered [OF q])
    then show ?thesis
      by (simp add: order_by_date_desc_emp_id_sorted)
  qed
  have "satisfies_filters None None None = (\<lambda>r. True)"
    by (simp add: fun_eq_iff satisfies_filters_def)
  then have "filter_mset (satisfies_filters None None None) (mset (attendance_records s)) =
        mset (attendance_records s)"
    by simp
  with listing [of None None None] listing [of start_date end_date attendance_type_filter]
  show ?thesis by auto
qed

theorem filtered_listing_witness:
  "\<exists>rows. get_attendance healthy (Some 100) None (Some ''WFH'') example_database =
            Responded 200 (Records rows) \<and>
          mset rows =
            {#\<lparr>rec_id = 2, rec_emp_id = ''E2'', emp_name = ''Bob'', attendance_type = ''WFH'',
               date = 100, timestamp = 11\<rparr>,
              \<lparr>rec_id = 3, rec_emp_id = ''E1'', emp_name = ''Alice'', attendance_type = ''WFH'',
               date = 101, timestamp = 12\<rparr>#} \<and>
          sorted_wrt date_desc_then_emp_id rows"
  using filtered_listing [of "Some 100" None "Some ''WFH''" example_database]
  by (simp add: example_database_rows satisfies_filters_def)

subsection \<open>GET /attendance-range/:emp_id/:start_date/:end_date\<close>

text \<open>
  C9. With the engine executing the statement, the range listing answers 200 with
  exactly the stored records of the employee whose date lies between the two bounds,
  both bounds included, by date descending.
\<close>

theorem range_listing:
  "\<exists>rows. get_attendance_range healthy e start_date end_date s = Responded 200 (Records rows) \<and>
          mset rows =
            filter_mset (\<lambda>r. rec_emp_id r = e \<and> start_date \<le> date r \<and> date r \<le> end_date)
              (mset (attendance_records s)) \<and>
          sorted_wrt date_desc rows"
  by (simp add: get_attendance_range_def healthy_def select_range order_by_date_desc_sorted)

theorem range_listing_witness:
  "\<exists>rows. get_attendance_range healthy ''E1'' 100 101 example_database =
            Responded 200 (Records rows) \<and>
          mset rows =
            {#\<lparr>rec_id = 1, rec_emp_id = ''E1'', emp_name = ''Alice'', attendance_type = ''WFO'',
               date = 100, timestamp = 10\<rparr>,
              \<lparr>rec_id = 3, rec_emp_id = ''E1'', emp_name = ''Alice'', attendance_type = ''WFH'',
               date = 101, timestamp = 12\<rparr>#} \<and>
          sorted_wrt date_desc rows"
  using range_listing [of "''E1''" 100 101 example_database]
  by (simp add: example_database_rows)

section \<open>The statistics\<close>

lemma count_where_all: "count_where [Always] [] rows = Inr (length rows)"
  by (simp add: count_where_def where_clause_def parameters_required_def)

lemma count_where_type:
  "count_where [Type_is t] [] rows = Inr (length (filter (\<lambda>r. attendance_type r = t) rows))"
  by (simp add: count_where_def where_clause_def parameters_required_def)

lemma sum_group_sizes:
  assumes "finite A" and "f ` set xs \<subseteq> A"
  shows "(\<Sum>k \<in> A. length (filter (\<lambda>x. f x = k) xs)) = length xs"
  using assms(2)
proof (induction xs)
  case Nil
  then show ?case by simp
next
  case (Cons x xs)
  then have in_A: "f x \<in> A" and rest: "f ` set xs \<subseteq> A" by auto
  have "(\<Sum>k \<in> A. length (filter (\<lambda>y. f y = k) (x # xs))) =
        (\<Sum>k \<in> A. (if k = f x then 1 else 0) + length (filter (\<lambda>y. f y = k) xs))"
    by (rule sum.cong) auto
  also have "\<dots> = (\<Sum>k \<in> A. if k = f x then 1 else 0) + (\<Sum>k \<in> A. length (filter (\<lambda>y. f y = k) xs))"
    by (rule sum.distrib)
  also have "(\<Sum>k \<in> A. if k = f x then 1 else 0) = (1::nat)"
    using assms(1) in_A by (simp add: sum.delta)
  finally show ?case using Cons.IH [OF rest] by simp
qed

lemma sum_list_group_sizes:
  "sum_list (map (\<lambda>k. length (filter (\<lambda>x. f x = k) xs)) (remdups (map f xs))) = length xs"
proof -
  have "sum_list (map (\<lambda>k. length (filter (\<lambda>x. f x = k) xs)) (remdups (map f xs))) =
        (\<Sum>k \<in> set (remdups (map f xs)). length (filter (\<lambda>x. f x = k) xs))"
    by (rule sum_list_distinct_conv_sum_set) simp
  also have "\<dots> = length xs"
    by (rule sum_group_sizes) simp_all
  finally show ?thesis .
qed

lemma mset_group_by:
  "mset (group_by_attendance_type rows) =
   mset (map (\<lambda>t. (t, length (filter (\<lambda>r. attendance_type r = t) rows)))
          (remdups (map attendance_type rows)))"
  unfolding group_by_attendance_type_def by (rule mset_sort)

lemma group_by_total:
  "sum_list (map snd (group_by_attendance_type rows)) = length rows"
proof -
  let ?groups = "map (\<lambda>t. (t, length (filter (\<lambda>r. attendance_type r = t) rows)))
                   (remdups (map attendance_type rows))"
  have "sum_list (map snd (group_by_attendance_type rows)) =
        sum_mset (mset (map snd (group_by_attendance_type rows)))"
    by (rule sum_mset_sum_list [symmetric])
  also have "\<dots> = sum_mset (image_mset snd (mset (group_by_attendance_type rows)))"
    by (simp only: mset_map)
  also have "\<dots> = sum_mset (image_mset snd (mset ?groups))"
    by (simp only: mset_group_by)
  also have "\<dots> = sum_mset (mset (map snd ?groups))"
    by (simp only: mset_map)
  also have "\<dots> = sum_list (map snd ?groups)"
    by (rule sum_mset_sum_list)
  also have "map snd ?groups =
             map (\<lambda>t. length (filter (\<lambda>r. attendance_type r = t) rows))
               (remdups (map attendance_type rows))"
    by (simp add: comp_def)
  also have "sum_list \<dots> = length rows"
    by (rule sum_list_group_sizes)
  finally show ?thesis .
qed

lemma group_by_keys:
  "distinct (map fst (group_by_attendance_type rows))"
  "set (map fst (group_by_attendance_type rows)) = attendance_type ` set rows"
proof -
  let ?groups = "map (\<lambda>t. (t, length (filter (\<lambda>r. attendance_type r = t) rows)))
                   (remdups (map attendance_type rows))"
  have k: "map fst ?groups = remdups (map attendance_type rows)"
    by (simp add: comp_def)
  have "mset (map fst (group_by_attendance_type rows)) =
        image_mset fst (mset (group_by_attendance_type rows))"
    by (rule mset_map)
  also have "\<dots> = image_mset fst (mset ?groups)"
    by (simp only: mset_group_by)
  also have "\<dots> = mset (map fst ?groups)"
    by (rule mset_map [symmetric])
  finally have m: "mset (map fst (group_by_attendance_type rows)) =
                   mset (remdups (map attendance_type rows))"
    unfolding k .
  from m have "distinct (map fst (group_by_attendance_type rows)) =
               distinct (remdups (map attendance_type rows))"
    by (rule mset_eq_imp_distinct_iff)
  then show "distinct (map fst (group_by_attendance_type rows))" by simp
  from m have "set (map fst (group_by_attendance_type rows)) =
               set (remdups (map attendance_type rows))"
    by (rule mset_eq_setD)
  then show "set (map fst (group_by_attendance_type rows)) = attendance_type ` set rows"
    by simp
qed

lemma group_by_members:
  "set (group_by_attendance_type rows) =
     (\<lambda>t. (t, length (filter (\<lambda>r. attendance_type r = t) rows))) ` attendance_type ` set rows"
  by (simp add: group_by_attendance_type_def)

lemma group_by_count:
  "map_of (group_by_attendance_type rows) t =
     (if t \<in> attendance_type ` set rows
      then Some (length (filter (\<lambda>r. attendance_type r = t) rows)) else None)"
proof (cases "t \<in> attendance_type ` set rows")
  case True
  then have "(t, length (filter (\<lambda>r. attendance_type r = t) rows)) \<in>
             set (group_by_attendance_type rows)"
    unfolding group_by_members by blast
  with group_by_keys(1) [of rows] True show ?thesis by simp
next
  case False
  then have "t \<notin> fst ` set (group_by_attendance_type rows)"
    using group_by_keys(2) [of rows] by simp
  with False show ?thesis by (simp add: map_of_eq_None_iff)
qed

lemma group_by_sorted:
  "sorted_wrt (\<lambda>g h. snd h \<le> snd g) (group_by_attendance_type rows)"
proof -
  have "sorted (map (\<lambda>g. - int (snd g)) (group_by_attendance_type rows))"
    unfolding group_by_attendance_type_def by (rule sorted_sort_key)
  then have "sorted_wrt (\<lambda>g h. - int (snd g) \<le> - int (snd h)) (group_by_attendance_type rows)"
    by (simp add: sorted_map)
  then show ?thesis
    by (rule sorted_wrt_mono_rel [rotated]) simp
qed


text \<open>
  C6. With the engine executing the five queries on one stored state, GET /stats
  answers 200 with a result in which \<^verbatim>\<open>totalRecords\<close> is the sum of the counts of
  \<^verbatim>\<open>attendanceByType\<close>, \<^verbatim>\<open>wfoRecords\<close> and \<^verbatim>\<open>wfhRecords\<close> are the counts that
  \<^verbatim>\<open>attendanceByType\<close> gives for WFO and WFH (0 when the type has no group), and
  \<^verbatim>\<open>attendanceByType\<close> holds one group for each attendance type that is stored, the
  larger counts first. \<^verbatim>\<open>totalEmployees\<close> is the number of employee rows.
\<close>

theorem statistics_consistent:
  "\<exists>st. get_stats healthy s = Responded 200 (Statistics st) \<and>
     totalEmployees st = length (employees s) \<and>
     totalRecords st = sum_list (map snd (attendanceByType st)) \<and>
     wfoRecords st = (case map_of (attendanceByType st) ''WFO'' of Some c \<Rightarrow> c | None \<Rightarrow> 0) \<and>
     wfhRecords st = (case map_of (attendanceByType st) ''WFH'' of Some c \<Rightarrow> c | None \<Rightarrow> 0) \<and>
     distinct (map fst (attendanceByType st)) \<and>
     set (map fst (attendanceByType st)) = attendance_type ` set (attendance_records s) \<and>
     sorted_wrt (\<lambda>g h. snd h \<le> snd g) (attendanceByType st)"
proof -
  let ?rows = "attendance_records s"
  have absent: "length (filter (\<lambda>r. attendance_type r = t) ?rows) = 0"
    if "t \<notin> attendance_type ` set ?rows" for t
    using that by (auto simp: filter_empty_conv)
  have count: "length (filter (\<lambda>r. attendance_type r = t) ?rows) =
               (case map_of (group_by_attendance_type ?rows) t of Some c \<Rightarrow> c | None \<Rightarrow> 0)" for t
    using absent [of t] by (simp add: group_by_count)
  have "get_stats healthy s =
        Responded 200 (Statistics
          \<lparr>totalEmployees = length (employees s), totalRecords = length ?rows,
           wfoRecords = length (filter (\<lambda>r. attendance_type r = ''WFO'') ?rows),
           wfhRecords = length (filter (\<lambda>r. attendance_type r = ''WFH'') ?rows),
           attendanceByType = group_by_attendance_type ?rows\<rparr>)"
    by (simp add: get_stats_def healthy_def count_where_all count_where_type)
  moreover have "length ?rows = sum_list (map snd (group_by_attendance_type ?rows))"
    by (simp add: group_by_total)
  ultimately show ?thesis
    using count [of "''WFO''"] count [of "''WFH''"] group_by_keys [of ?rows]
      group_by_sorted [of ?rows]
    by simp
qed

theorem statistics_consistent_witness:
  "\<exists>st. get_stats healthy example_database = Responded 200 (Statistics st) \<and>
     totalEmployees st = 2 \<and>
     totalRecords st = sum_list (map snd (attendanceByType st)) \<and>
     wfoRecords st = (case map_of (attendanceByType st) ''WFO'' of Some c \<Rightarrow> c | None \<Rightarrow> 0) \<and>
     wfhRecords st = (case map_of (attendanceByType st) ''WFH'' of Some c \<Rightarrow> c | None \<Rightarrow> 0) \<and>
     distinct (map fst (attendanceByType st)) \<and>
     set (map fst (attendanceByType st)) = {''WFO'', ''WFH''} \<and>
     sorted_wrt (\<lambda>g h. snd h \<le> snd g) (attendanceByType st)"
  using statistics_consistent [of example_database]
  by (simp add: example_database_rows numeral_2_eq_2)

section \<open>Attendance writes that are saved\<close>

lemma distinct_key_row:
  assumes "distinct (map f xs)" and "x \<in> set xs" and "f x = k"
  shows "filter (\<lambda>y. f y = k) xs = [x]"
proof -
  from assms(2,3) have "k \<in> f ` set xs" by auto
  with assms(1) have "length (filter (\<lambda>y. f y = k) xs) = 1"
    by (rule distinct_filter_key_length)
  then obtain y where y: "filter (\<lambda>y. f y = k) xs = [y]"
    by (cases "filter (\<lambda>y. f y = k) xs") auto
  from assms(2,3) have "x \<in> set (filter (\<lambda>y. f y = k) xs)" by simp
  with y show ?thesis by simp
qed

lemma distinct_key_same_row:
  assumes "distinct (map f xs)" and "x \<in> set xs" and "y \<in> set xs" and "f x = f y"
  shows "x = y"
  using assms by (auto simp: distinct_map dest: inj_onD)

text \<open>What a saved attendance write went through: the fields were present, every call
  of the transaction was executed, and the stored state is the one the two upserts
  left.\<close>

lemma post_attendance_saved_statement:
  assumes "post_attendance eng now e n t d s = (Responded 200 b, s')"
  shows "\<exists>p4 i rest. d = Some p4 \<and>
           b = Attendance_saved ''Attendance record added successfully'' i \<and>
           insert_attendance_on_conflict now (param_text e) (param_text n) (param_text t) p4
             (s\<lparr>employees :=
                  insert_employee_on_conflict now (param_text e) (param_text n) (employees s)\<rparr>) =
           (Inr (i # rest), s')"
proof -
  from post_attendance_saved [OF assms] obtain p4 i where
    d: "d = Some p4" and b: "b = Attendance_saved ''Attendance record added successfully'' i"
    and t: "attendance_transaction eng now (param_text e) (param_text n) (param_text t) p4 s =
            Inr (i, s')"
    by blast
  from attendance_transaction_returns [OF t] d b show ?thesis by blast
qed

lemma post_attendance_saved_row:
  assumes "post_attendance eng now e n t d s = (Responded 200 (Attendance_saved m i), s')"
  shows "\<exists>r \<in> set (attendance_records s').
           rec_id r = i \<and> rec_emp_id r = param_text e \<and> Some (date r) = d \<and>
           emp_name r = param_text n \<and> attendance_type r = param_text t \<and> timestamp r = now"
proof -
  let ?w = "s\<lparr>employees :=
              insert_employee_on_conflict now (param_text e) (param_text n) (employees s)\<rparr>"
  from post_attendance_saved_statement [OF assms] obtain p4 rest where
    d: "d = Some p4" and
    st: "insert_attendance_on_conflict now (param_text e) (param_text n) (param_text t) p4 ?w =
         (Inr (i # rest), s')"
    by auto
  let ?key = "\<lambda>r. rec_emp_id r = param_text e \<and> date r = p4"
  show ?thesis
  proof (cases "\<exists>r \<in> set (attendance_records ?w). ?key r")
    case True
    from st have "map rec_id (filter ?key (attendance_records ?w)) = i # rest"
      and rows: "attendance_records s' =
        map (\<lambda>r. if ?key r
                  then r\<lparr>emp_name := param_text n, attendance_type := param_text t,
                          timestamp := now\<rparr>
                  else r) (attendance_records ?w)"
      unfolding insert_attendance_conflict [OF True] by auto
    then obtain r0 rs where f: "filter ?key (attendance_records ?w) = r0 # rs"
      and i: "rec_id r0 = i"
      by (cases "filter ?key (attendance_records ?w)") auto
    from f have "r0 \<in> set (filter ?key (attendance_records ?w))" by simp
    with i have "r0 \<in> set (attendance_records ?w)" and "?key r0" and "rec_id r0 = i" by simp_all
    then have "r0\<lparr>emp_name := param_text n, attendance_type := param_text t, timestamp := now\<rparr>
                 \<in> set (attendance_records s')"
      unfolding rows by force
    with \<open>?key r0\<close> \<open>rec_id r0 = i\<close> d show ?thesis
      by (intro bexI [where x = "r0\<lparr>emp_name := param_text n, attendance_type := param_text t,
            timestamp := now\<rparr>"]) simp_all
  next
    case False
    with st d show ?thesis
      by (auto simp: insert_attendance_on_conflict_def Let_def split: if_splits)
  qed
qed

lemma post_attendance_healthy_saves:
  assumes "constraints s" and "\<not> falsy e" and "\<not> falsy n" and "\<not> falsy t"
  shows "\<exists>i s'. post_attendance healthy now e n t (Some p4) s =
           (Responded 200 (Attendance_saved ''Attendance record added successfully'' i), s')"
proof -
  let ?w = "s\<lparr>employees :=
              insert_employee_on_conflict now (param_text e) (param_text n) (employees s)\<rparr>"
  have "constraints ?w" using assms(1) by (rule employees_upserted_constraints)
  moreover have "param_text e \<in> emp_id ` set (employees ?w)"
    by (simp add: set_emp_ids_insert_employee)
  ultimately obtain ids where
    "fst (insert_attendance_on_conflict now (param_text e) (param_text n) (param_text t) p4 ?w) =
     Inr ids"
    using insert_attendance_succeeds by blast
  then obtain s' where
    st: "insert_attendance_on_conflict now (param_text e) (param_text n) (param_text t) p4 ?w =
         (Inr ids, s')"
    by (cases "insert_attendance_on_conflict now (param_text e) (param_text n) (param_text t) p4 ?w")
      simp
  then have "ids \<noteq> []" by (rule insert_attendance_returns_a_row)
  then obtain i rest where "ids = i # rest" by (cases ids) auto
  with st have
    "attendance_transaction healthy now (param_text e) (param_text n) (param_text t) p4 s =
     Inr (i, s')"
    by (intro attendance_transaction_commits) (simp_all add: healthy_def)
  with assms(2-4) show ?thesis
    by (simp add: post_attendance_def healthy_def)
qed

subsection \<open>What a saved write changes\<close>

text \<open>
  C10. A POST /attendance that is answered 200 leaves every employee row with another
  \<^verbatim>\<open>emp_id\<close> and every attendance record with another (\<^verbatim>\<open>emp_id\<close>, \<^verbatim>\<open>date\<close>) as it
  was stored: the same rows, with the same content, in the same order. Under the
  constraints of the schema exactly one employee row and exactly one attendance record
  carry the keys of the request afterwards, so at most two rows differ.
\<close>

theorem attendance_upsert_frame:
  assumes "post_attendance eng now e n t d s = (Responded 200 b, s')"
  shows
    "filter (\<lambda>r. emp_id r \<noteq> param_text e) (employees s') =
       filter (\<lambda>r. emp_id r \<noteq> param_text e) (employees s) \<and>
     filter (\<lambda>r. \<not> (rec_emp_id r = param_text e \<and> Some (date r) = d)) (attendance_records s') =
       filter (\<lambda>r. \<not> (rec_emp_id r = param_text e \<and> Some (date r) = d)) (attendance_records s) \<and>
     (constraints s \<longrightarrow>
        length (filter (\<lambda>r. emp_id r = param_text e) (employees s')) = 1 \<and>
        length (filter (\<lambda>r. rec_emp_id r = param_text e \<and> Some (date r) = d)
                  (attendance_records s')) = 1)"
proof -
  let ?w = "s\<lparr>employees :=
              insert_employee_on_conflict now (param_text e) (param_text n) (employees s)\<rparr>"
  from post_attendance_saved_statement [OF assms] obtain p4 i rest where
    d: "d = Some p4" and
    st: "insert_attendance_on_conflict now (param_text e) (param_text n) (param_text t) p4 ?w =
         (Inr (i # rest), s')"
    by blast
  have emps: "employees s' =
              insert_employee_on_conflict now (param_text e) (param_text n) (employees s)"
    using insert_attendance_employees(1) [OF st] by simp
  have 1: "filter (\<lambda>r. emp_id r \<noteq> param_text e) (employees s') =
           filter (\<lambda>r. emp_id r \<noteq> param_text e) (employees s)"
    unfolding emps by (rule insert_employee_frame)
  have 2: "filter (\<lambda>r. \<not> (rec_emp_id r = param_text e \<and> Some (date r) = d)) (attendance_records s') =
           filter (\<lambda>r. \<not> (rec_emp_id r = param_text e \<and> Some (date r) = d)) (attendance_records s)"
    using insert_attendance_frame [OF st] d by simp
  have 3: "length (filter (\<lambda>r. emp_id r = param_text e) (employees s')) = 1 \<and>
           length (filter (\<lambda>r. rec_emp_id r = param_text e \<and> Some (date r) = d)
                     (attendance_records s')) = 1"
    if c: "constraints s"
  proof -
    from c have "constraints ?w" by (rule employees_upserted_constraints)
    then have c': "constraints s'" using st by (rule insert_attendance_constraints)
    have "param_text e \<in> emp_id ` set (employees s')"
      unfolding emps by (simp add: set_emp_ids_insert_employee)
    moreover from c' have "distinct (map emp_id (employees s'))"
      by (simp add: constraints_def primary_key_employees_def)
    ultimately have a: "length (filter (\<lambda>r. emp_id r = param_text e) (employees s')) = 1"
      by (rule distinct_filter_key_length [rotated])
    have "(param_text e, p4) \<in> set (map (\<lambda>r. (rec_emp_id r, date r)) (attendance_records s'))"
      unfolding insert_attendance_keys(1) [OF st] by force
    then have "(param_text e, p4) \<in> (\<lambda>r. (rec_emp_id r, date r)) ` set (attendance_records s')"
      by simp
    moreover from c' have "distinct (map (\<lambda>r. (rec_emp_id r, date r)) (attendance_records s'))"
      by (simp add: constraints_def unique_emp_date_def)
    ultimately have
      "length (filter (\<lambda>r. (rec_emp_id r, date r) = (param_text e, p4)) (attendance_records s')) = 1"
      by (rule distinct_filter_key_length [rotated])
    with a d show ?thesis by simp
  qed
  from 1 2 3 show ?thesis by blast
qed

theorem attendance_upsert_frame_witness:
  "filter (\<lambda>r. emp_id r \<noteq> ''E3'') (employees (snd second_write)) =
     filter (\<lambda>r. emp_id r \<noteq> ''E3'') (employees (snd first_write)) \<and>
   filter (\<lambda>r. \<not> (rec_emp_id r = ''E3'' \<and> Some (date r) = Some 101))
       (attendance_records (snd second_write)) =
     filter (\<lambda>r. \<not> (rec_emp_id r = ''E3'' \<and> Some (date r) = Some 101))
       (attendance_records (snd first_write)) \<and>
   constraints (snd first_write) \<and>
   length (filter (\<lambda>r. emp_id r = ''E3'') (employees (snd second_write))) = 1 \<and>
   length (filter (\<lambda>r. rec_emp_id r = ''E3'' \<and> Some (date r) = Some 101)
             (attendance_records (snd second_write))) = 1"
proof -
  have c: "constraints (snd first_write)"
    unfolding first_write_def
    by (intro post_attendance_constraints reachable_constraints reachable_example_database)
  have "post_attendance healthy 14 (Some ''E3'') (Some ''Carol D'') (Some ''WFH'') (Some 101)
          (snd first_write) =
        (Responded 200 (Attendance_saved ''Attendance record added successfully'' 4),
         snd second_write)"
    unfolding second_write_def [symmetric] by (simp add: second_write_value)
  from attendance_upsert_frame [OF this] c show ?thesis
    by (simp add: param_text_def)
qed

subsection \<open>An attendance write for an employee that is not yet known\<close>

lemma insert_employee_unknown:
  assumes "p1 \<notin> emp_id ` set rows"
  shows "insert_employee_on_conflict now p1 p2 rows =
         rows @ [\<lparr>emp_id = p1, name = p2, created_at = now, updated_at = now\<rparr>]"
proof -
  from assms have "\<not> (\<exists>e \<in> set rows. emp_id e = p1)" by force
  then show ?thesis by (simp add: insert_employee_on_conflict_def)
qed

text \<open>
  C3. A POST /attendance that is answered 200 for an \<^verbatim>\<open>emp_id\<close> without a row in
  \<^verbatim>\<open>employees\<close> has added that employee with the supplied name. The employee is
  upserted before the record is inserted: from a reachable state, with the fields
  present and the engine executing every call, the write is answered 200 whether the
  employee was known or not, so the foreign key of the new record is never violated.
  And after a saved write from a reachable state every attendance record refers to a
  stored employee.
\<close>

theorem attendance_creates_employee:
  "(post_attendance eng now e n t d s = (Responded 200 b, s') \<and>
      param_text e \<notin> emp_id ` set (employees s) \<longrightarrow>
      employees s' =
        employees s @
          [\<lparr>emp_id = param_text e, name = param_text n, created_at = now, updated_at = now\<rparr>]) \<and>
   (reachable s \<and> \<not> falsy e \<and> \<not> falsy n \<and> \<not> falsy t \<longrightarrow>
      (\<exists>i s''. post_attendance healthy now e n t (Some p4) s =
         (Responded 200 (Attendance_saved ''Attendance record added successfully'' i), s''))) \<and>
   (reachable s \<and> post_attendance eng now e n t d s = (Responded 200 b, s') \<longrightarrow>
      (\<forall>r \<in> set (attendance_records s'). rec_emp_id r \<in> emp_id ` set (employees s')))"
proof (intro conjI impI)
  assume a: "post_attendance eng now e n t d s = (Responded 200 b, s') \<and>
             param_text e \<notin> emp_id ` set (employees s)"
  then obtain p4 i rest where
    "insert_attendance_on_conflict now (param_text e) (param_text n) (param_text t) p4
       (s\<lparr>employees :=
            insert_employee_on_conflict now (param_text e) (param_text n) (employees s)\<rparr>) =
     (Inr (i # rest), s')"
    using post_attendance_saved_statement by blast
  from insert_attendance_employees(1) [OF this]
  have "employees s' =
        insert_employee_on_conflict now (param_text e) (param_text n) (employees s)"
    by simp
  with a show "employees s' =
        employees s @
          [\<lparr>emp_id = param_text e, name = param_text n, created_at = now, updated_at = now\<rparr>]"
    by (simp add: insert_employee_unknown)
next
  assume "reachable s \<and> \<not> falsy e \<and> \<not> falsy n \<and> \<not> falsy t"
  then show "\<exists>i s''. post_attendance healthy now e n t (Some p4) s =
         (Responded 200 (Attendance_saved ''Attendance record added successfully'' i), s'')"
    by (intro post_attendance_healthy_saves reachable_constraints) simp_all
next
  assume a: "reachable s \<and> post_attendance eng now e n t d s = (Responded 200 b, s')"
  then have "reachable (snd (handle eng now (POST_attendance e n t d) s))"
    by (intro reachable.served) simp
  with a have "constraints s'" by (simp add: reachable_constraints)
  then show "\<forall>r \<in> set (attendance_records s'). rec_emp_id r \<in> emp_id ` set (employees s')"
    by (simp add: constraints_def foreign_key_def)
qed

theorem attendance_creates_employee_witness:
  "fst first_write = Responded 200 (Attendance_saved ''Attendance record added successfully'' 4) \<and>
   ''E3'' \<notin> emp_id ` set (employees example_database) \<and>
   employees (snd first_write) =
     employees example_database @
       [\<lparr>emp_id = ''E3'', name = ''Carol'', created_at = 13, updated_at = 13\<rparr>] \<and>
   reachable example_database \<and>
   (\<exists>i s''. post_attendance healthy 13 (Some ''E3'') (Some ''Carol'') (Some ''WFO'') (Some 101)
       example_database =
     (Responded 200 (Attendance_saved ''Attendance record added successfully'' i), s'')) \<and>
   (\<exists>r \<in> set (attendance_records (snd first_write)). rec_emp_id r = ''E3'') \<and>
   ''E3'' \<in> emp_id ` set (employees (snd first_write))"
proof -
  have w: "post_attendance healthy 13 (Some ''E3'') (Some ''Carol'') (Some ''WFO'') (Some 101)
          example_database =
        (Responded 200 (Attendance_saved ''Attendance record added successfully'' 4),
         snd first_write)"
    unfolding first_write_def [symmetric] by (simp add: first_write_value)
  have "''E3'' \<notin> emp_id ` set (employees example_database)"
    by (simp add: example_database_rows)
  with attendance_creates_employee
    [of healthy 13 "Some ''E3''" "Some ''Carol''" "Some ''WFO''" "Some 101" example_database
      "Attendance_saved ''Attendance record added successfully'' 4" "snd first_write" 101]
    w reachable_example_database
  show ?thesis
    by (simp add: param_text_def falsy_def first_write_value)
qed

subsection \<open>A second write for the same employee and date\<close>

text \<open>
  C2. In every reachable state no two attendance records share (\<^verbatim>\<open>emp_id\<close>,
  \<^verbatim>\<open>date\<close>). When, from a reachable state, a POST /attendance is answered 200 and a
  second one for the same \<^verbatim>\<open>emp_id\<close> and \<^verbatim>\<open>date\<close> follows it and is answered 200,
  the second answer carries the \<^verbatim>\<open>id\<close> of the first, the table has as many rows as
  after the first, and it is the table after the first with \<^verbatim>\<open>emp_name\<close>,
  \<^verbatim>\<open>attendance_type\<close> and \<^verbatim>\<open>timestamp\<close> of the row with that \<^verbatim>\<open>id\<close> overwritten; that
  row is the only one with the key.
\<close>

theorem one_record_per_employee_and_date:
  "(reachable s \<longrightarrow> distinct (map (\<lambda>r. (rec_emp_id r, date r)) (attendance_records s))) \<and>
   (reachable s \<and>
    post_attendance eng1 t1 e n1 ty1 d s = (Responded 200 (Attendance_saved m1 i1), s1) \<and>
    post_attendance eng2 t2 e n2 ty2 d s1 = (Responded 200 (Attendance_saved m2 i2), s2) \<longrightarrow>
      i2 = i1 \<and>
      length (attendance_records s2) = length (attendance_records s1) \<and>
      attendance_records s2 =
        map (\<lambda>r. if rec_id r = i1
                  then r\<lparr>emp_name := param_text n2, attendance_type := param_text ty2,
                          timestamp := t2\<rparr>
                  else r) (attendance_records s1) \<and>
      (\<exists>r. filter (\<lambda>r. rec_emp_id r = param_text e \<and> Some (date r) = d)
              (attendance_records s2) = [r] \<and>
           rec_id r = i1 \<and> emp_name r = param_text n2 \<and> attendance_type r = param_text ty2 \<and>
           timestamp r = t2))"
proof (rule conjI; rule impI)
  assume "reachable s"
  then have "constraints s" by (rule reachable_constraints)
  then show "distinct (map (\<lambda>r. (rec_emp_id r, date r)) (attendance_records s))"
    by (simp add: constraints_def unique_emp_date_def)
next
  assume a: "reachable s \<and>
    post_attendance eng1 t1 e n1 ty1 d s = (Responded 200 (Attendance_saved m1 i1), s1) \<and>
    post_attendance eng2 t2 e n2 ty2 d s1 = (Responded 200 (Attendance_saved m2 i2), s2)"
  then have first: "post_attendance eng1 t1 e n1 ty1 d s = (Responded 200 (Attendance_saved m1 i1), s1)"
    and second: "post_attendance eng2 t2 e n2 ty2 d s1 = (Responded 200 (Attendance_saved m2 i2), s2)"
    by simp_all
  from a have "constraints s" by (simp add: reachable_constraints)
  then have "constraints (snd (post_attendance eng1 t1 e n1 ty1 d s))"
    by (rule post_attendance_constraints)
  with first have c1: "constraints s1" by simp
  let ?rows = "attendance_records s1"
  from post_attendance_saved_row [OF first] obtain r1 where
    r1: "r1 \<in> set ?rows" "rec_id r1 = i1" "rec_emp_id r1 = param_text e" "Some (date r1) = d"
    by blast
  let ?w = "s1\<lparr>employees :=
              insert_employee_on_conflict t2 (param_text e) (param_text n2) (employees s1)\<rparr>"
  from post_attendance_saved_statement [OF second] obtain p4 rest where
    d: "d = Some p4" and
    st: "insert_attendance_on_conflict t2 (param_text e) (param_text n2) (param_text ty2) p4 ?w =
         (Inr (i2 # rest), s2)"
    by auto
  let ?key = "\<lambda>r. rec_emp_id r = param_text e \<and> date r = p4"
  let ?upd = "\<lambda>r. r\<lparr>emp_name := param_text n2, attendance_type := param_text ty2,
                      timestamp := t2\<rparr>"
  from r1 d have key1: "?key r1" by simp
  with r1(1) have conflict: "\<exists>r \<in> set (attendance_records ?w). ?key r" by auto
  from st have ids: "map rec_id (filter ?key ?rows) = i2 # rest"
    and rows2: "attendance_records s2 = map (\<lambda>r. if ?key r then ?upd r else r) ?rows"
    unfolding insert_attendance_conflict [OF conflict] by auto
  from c1 have dk: "distinct (map (\<lambda>r. (rec_emp_id r, date r)) ?rows)"
    and di: "distinct (map rec_id ?rows)"
    by (simp_all add: constraints_def unique_emp_date_def primary_key_attendance_def)
  from dk r1(1) key1
  have "filter (\<lambda>r. (rec_emp_id r, date r) = (param_text e, p4)) ?rows = [r1]"
    by (intro distinct_key_row) simp_all
  then have only: "filter ?key ?rows = [r1]" by simp
  with ids r1(2) have same: "i2 = i1" by simp
  have by_id: "?key r \<longleftrightarrow> rec_id r = i1" if "r \<in> set ?rows" for r
  proof
    assume "?key r"
    with that have "r \<in> set (filter ?key ?rows)" by simp
    with only r1(2) show "rec_id r = i1" by simp
  next
    assume "rec_id r = i1"
    with r1(2) have "rec_id r = rec_id r1" by simp
    with di that r1(1) have "r = r1" by (rule distinct_key_same_row)
    with key1 show "?key r" by simp
  qed
  have rows: "attendance_records s2 = map (\<lambda>r. if rec_id r = i1 then ?upd r else r) ?rows"
    unfolding rows2 by (rule map_cong) (simp_all add: by_id)
  have "filter ?key (map (\<lambda>r. if ?key r then ?upd r else r) ?rows) =
        map (\<lambda>r. if ?key r then ?upd r else r) (filter ?key ?rows)"
    by (rule filter_map_touched) simp
  with only key1 have "filter ?key (attendance_records s2) = [?upd r1]"
    unfolding rows2 by simp
  with d r1(2) have
    "\<exists>r. filter (\<lambda>r. rec_emp_id r = param_text e \<and> Some (date r) = d)
              (attendance_records s2) = [r] \<and>
           rec_id r = i1 \<and> emp_name r = param_text n2 \<and> attendance_type r = param_text ty2 \<and>
           timestamp r = t2"
    by simp
  with same rows show "i2 = i1 \<and>
      length (attendance_records s2) = length (attendance_records s1) \<and>
      attendance_records s2 =
        map (\<lambda>r. if rec_id r = i1
                  then r\<lparr>emp_name := param_text n2, attendance_type := param_text ty2,
                          timestamp := t2\<rparr>
                  else r) (attendance_records s1) \<and>
      (\<exists>r. filter (\<lambda>r. rec_emp_id r = param_text e \<and> Some (date r) = d)
              (attendance_records s2) = [r] \<and>
           rec_id r = i1 \<and> emp_name r = param_text n2 \<and> attendance_type r = param_text ty2 \<and>
           timestamp r = t2)"
    by simp
qed

theorem one_record_per_employee_and_date_witness:
  "reachable example_database \<and>
   distinct (map (\<lambda>r. (rec_emp_id r, date r)) (attendance_records example_database)) \<and>
   fst first_write = Responded 200 (Attendance_saved ''Attendance record added successfully'' 4) \<and>
   fst second_write = Responded 200 (Attendance_saved ''Attendance record added successfully'' 4) \<and>
   length (attendance_records (snd second_write)) = length (attendance_records (snd first_write)) \<and>
   attendance_records (snd second_write) =
     map (\<lambda>r. if rec_id r = 4
               then r\<lparr>emp_name := ''Carol D'', attendance_type := ''WFH'', timestamp := 14\<rparr>
               else r) (attendance_records (snd first_write)) \<and>
   (\<exists>r. filter (\<lambda>r. rec_emp_id r = ''E3'' \<and> Some (date r) = Some 101)
           (attendance_records (snd second_write)) = [r] \<and>
        rec_id r = 4 \<and> emp_name r = ''Carol D'' \<and> attendance_type r = ''WFH'' \<and> timestamp r = 14)"
proof -
  have 1: "post_attendance healthy 13 (Some ''E3'') (Some ''Carol'') (Some ''WFO'') (Some 101)
          example_database =
        (Responded 200 (Attendance_saved ''Attendance record added successfully'' 4),
         snd first_write)"
    unfolding first_write_def [symmetric] by (simp add: first_write_value)
  have 2: "post_attendance healthy 14 (Some ''E3'') (Some ''Carol D'') (Some ''WFH'') (Some 101)
          (snd first_write) =
        (Responded 200 (Attendance_saved ''Attendance record added successfully'' 4),
         snd second_write)"
    unfolding second_write_def [symmetric] by (simp add: second_write_value)
  from one_record_per_employee_and_date
    [of example_database healthy 13 "Some ''E3''" "Some ''Carol''" "Some ''WFO''" "Some 101"
      "''Attendance record added successfully''" 4 "snd first_write"
      healthy 14 "Some ''Carol D''" "Some ''WFH''"
      "''Attendance record added successfully''" 4 "snd second_write"]
    1 2 reachable_example_database
  show ?thesis
    by (simp add: param_text_def first_write_value second_write_value)
qed

section \<open>Failure inside the transaction\<close>

text \<open>Whatever a POST /attendance leaves behind, either it was answered 200 or both
  tables are as they were stored: no write of a failed transaction is visible.\<close>

lemma attendance_upsert_all_or_nothing:
  assumes "post_attendance eng now e n t d s = (out, s')"
  shows "(\<exists>i. out = Responded 200 (Attendance_saved ''Attendance record added successfully'' i)) \<or>
         (employees s' = employees s \<and> attendance_records s' = attendance_records s)"
proof (cases "\<exists>b. out = Responded 200 b")
  case True
  then obtain b where "out = Responded 200 b" ..
  with assms post_attendance_saved [of eng now e n t d s b s'] show ?thesis by auto
next
  case False
  then have "\<And>b. out \<noteq> Responded 200 b" by blast
  with assms show ?thesis by (simp add: post_attendance_not_saved)
qed

text \<open>When a call of the \<^verbatim>\<open>try\<close> block throws and \<^verbatim>\<open>ROLLBACK\<close> is executed, the
  answer is the 500 with the message of the call that threw.\<close>

lemma attendance_failure_answered_500:
  assumes "\<not> falsy e" "\<not> falsy n" "\<not> falsy t" and "eng CONNECT = None"
    and "attendance_transaction eng now (param_text e) (param_text n) (param_text t) p4 s =
         Inl (msg, s0)"
    and "eng ROLLBACK = None"
  shows "post_attendance eng now e n t (Some p4) s = (Responded 500 (Error msg), s0)"
  using assms by (simp add: post_attendance_def)

lemma attendance_transaction_first_rejection:
  "eng BEGIN = Some msg \<Longrightarrow>
     attendance_transaction eng now p1 p2 p3 p4 s = Inl (msg, s)"
  "eng BEGIN = None \<Longrightarrow> eng UPSERT_EMPLOYEE = Some msg \<Longrightarrow>
     attendance_transaction eng now p1 p2 p3 p4 s = Inl (msg, s)"
  "eng BEGIN = None \<Longrightarrow> eng UPSERT_EMPLOYEE = None \<Longrightarrow> eng UPSERT_ATTENDANCE = Some msg \<Longrightarrow>
     attendance_transaction eng now p1 p2 p3 p4 s = Inl (msg, s)"
  by (simp_all add: attendance_transaction_def Let_def)

text \<open>When \<^verbatim>\<open>ROLLBACK\<close> is rejected too, the \<^verbatim>\<open>catch\<close> is left by that rejection
  before the 500 is written.\<close>

lemma attendance_rollback_rejected:
  assumes "\<not> falsy e" "\<not> falsy n" "\<not> falsy t" and "eng CONNECT = None"
    and "attendance_transaction eng now (param_text e) (param_text n) (param_text t) p4 s =
         Inl (msg, s0)"
    and "eng ROLLBACK = Some msg'"
  shows "post_attendance eng now e n t (Some p4) s = (Rejected msg', s0)"
  using assms by (simp add: post_attendance_def)

text \<open>
  C1. The tables are as stored after every write that was not answered 200 (see
  \<open>attendance_upsert_all_or_nothing\<close>), and a failed step is answered 500 with its
  message when \<^verbatim>\<open>ROLLBACK\<close> is executed. The claim promises the 500 for every failed
  step. Here the connection is lost during the employee upsert, so that statement is
  rejected and so is the \<^verbatim>\<open>ROLLBACK\<close> the \<^verbatim>\<open>catch\<close> awaits on the same client: the
  handler writes no response at all, its promise is rejected with the error of the
  \<^verbatim>\<open>ROLLBACK\<close>.
\<close>

theorem connection_lost_during_upsert:
  "post_attendance
     (healthy(UPSERT_EMPLOYEE := Some ''Connection terminated unexpectedly'',
              ROLLBACK := Some ''Client has encountered a connection error and is not queryable''))
     13 (Some ''E3'') (Some ''Carol'') (Some ''WFO'') (Some 101) example_database =
   (Rejected ''Client has encountered a connection error and is not queryable'',
    example_database)"
  by (simp add: post_attendance_def attendance_transaction_def healthy_def falsy_def)

end
